theory Spec2Isabelle
  imports Main "HOL-Library.AList"
begin

section \<open>graftcp-local: data model\<close>

text \<open>
  The development follows \<^verbatim>\<open>graftcp-local/local.go\<close>. Go strings are byte strings and are
  modelled as \<^typ>\<open>string\<close>; \<^verbatim>\<open>len\<close> is \<^const>\<open>length\<close>. A Go \<^verbatim>\<open>error\<close> value is
  modelled by its message, and a nil interface or pointer by \<^const>\<open>None\<close>. Calls of the
  logger \<^verbatim>\<open>dlog\<close> change nothing that the program reads back and are left out, except
  \<^verbatim>\<open>dlog.Fatalf\<close>, which ends the process and is the \<^const>\<open>Inl\<close> result of \<open>NewLocal\<close>.
\<close>

type_synonym modeT = int

definition AutoSelectMode :: modeT where "AutoSelectMode = 0"
definition RandomSelectMode :: modeT where "RandomSelectMode = 1"
definition OnlySocks5Mode :: modeT where "OnlySocks5Mode = 2"
definition OnlyHttpProxyMode :: modeT where "OnlyHttpProxyMode = 3"
definition DirectMode :: modeT where "DirectMode = 4"

record Auth =
  User :: string
  Password :: string

text \<open>
  A \<^verbatim>\<open>proxy.Dialer\<close> is kept as the constructor call of \<^verbatim>\<open>golang.org/x/net/proxy\<close> that
  made it: \<^verbatim>\<open>proxy.Direct\<close>, \<^verbatim>\<open>proxy.SOCKS5(network, addr, auth, forward)\<close> and
  \<^verbatim>\<open>proxy.FromURL(u, forward)\<close>.
\<close>

datatype Dialer =
    Direct
  | SOCKS5 string string "Auth option" Dialer
  | FromURL string Dialer

text \<open>A \<^verbatim>\<open>*net.TCPAddr\<close> is kept as the value of its \<^verbatim>\<open>String()\<close> method.\<close>

type_synonym TCPAddr = string

record Local =
  faddr :: TCPAddr
  faddrString :: string
  socks5Dialer :: "Dialer option"
  httpProxyDialer :: "Dialer option"
  directDialer :: "Dialer option"
  selectMode :: modeT

text \<open>
  The library calls of \<open>NewLocal\<close> whose outcome depends on the machine are parameters:
  each returns its error (\<^const>\<open>Inl\<close>) or its value.
\<close>

record Resolver =
  ResolveTCPAddr :: "string \<Rightarrow> string \<Rightarrow> string + TCPAddr"
  proxy_SOCKS5 :: "string \<Rightarrow> string \<Rightarrow> Auth option \<Rightarrow> Dialer \<Rightarrow> string + Dialer"
  proxy_FromURL :: "string \<Rightarrow> Dialer \<Rightarrow> string + Dialer"

section \<open>Construction and the proxy selector\<close>

text \<open>
  \<open>NewLocal\<close>: the struct literal sets \<open>faddr\<close> and \<open>faddrString\<close>; every other field has
  Go's zero value, so the dialers are nil and \<open>selectMode\<close> is \<open>0\<close>.
\<close>

definition NewLocal ::
  "Resolver \<Rightarrow> string \<Rightarrow> string \<Rightarrow> string \<Rightarrow> string \<Rightarrow> string \<Rightarrow> string + Local" where
  "NewLocal sys listenAddr socks5Addr socks5Username socks5PassWord httpProxyAddr =
    (case ResolveTCPAddr sys ''tcp'' listenAddr of
       Inl err \<Rightarrow> Inl (''resolve frontend error: '' @ err)
     | Inr listenTCPAddr \<Rightarrow>
        let local0 = \<lparr> faddr = listenTCPAddr, faddrString = listenAddr,
                        socks5Dialer = None, httpProxyDialer = None, directDialer = None,
                        selectMode = 0 \<rparr>;
            local1 = local0 \<lparr> directDialer := Some Direct \<rparr>;
            r1 = ResolveTCPAddr sys ''tcp'' socks5Addr;
            r2 = ResolveTCPAddr sys ''tcp'' httpProxyAddr
        in if isl r1 \<and> isl r2 then Inl ''neither proxy address can be resolved''
           else
             let local2 =
                   (case r1 of
                      Inl err1 \<Rightarrow> local1
                    | Inr socks5TCPAddr \<Rightarrow>
                        let auth = (if socks5Username \<noteq> ''''
                                    then Some \<lparr> User = socks5Username, Password = socks5PassWord \<rparr>
                                    else None)
                        in (case proxy_SOCKS5 sys ''tcp'' socks5TCPAddr auth Direct of
                              Inl err \<Rightarrow> local1
                            | Inr dialerSocks5 \<Rightarrow> local1 \<lparr> socks5Dialer := Some dialerSocks5 \<rparr>));
                 local3 =
                   (case r2 of
                      Inl err2 \<Rightarrow> local2
                    | Inr httpProxyTCPAddr \<Rightarrow>
                        let httpProxyURI = ''http://'' @ httpProxyTCPAddr
                        in (case proxy_FromURL sys httpProxyURI Direct of
                              Inl err \<Rightarrow> local2
                            | Inr dialerHttpProxy \<Rightarrow>
                                local2 \<lparr> httpProxyDialer := Some dialerHttpProxy \<rparr>))
             in Inr local3)"

text \<open>\<open>SetSelectMode\<close>: a \<^verbatim>\<open>switch\<close> on the string with five cases and no default.\<close>

definition SetSelectMode :: "string \<Rightarrow> Local \<Rightarrow> Local" where
  "SetSelectMode mode l =
    (if mode = ''auto'' then l \<lparr> selectMode := AutoSelectMode \<rparr>
     else if mode = ''random'' then l \<lparr> selectMode := RandomSelectMode \<rparr>
     else if mode = ''only_http_proxy'' then l \<lparr> selectMode := OnlyHttpProxyMode \<rparr>
     else if mode = ''only_socks5'' then l \<lparr> selectMode := OnlySocks5Mode \<rparr>
     else if mode = ''direct'' then l \<lparr> selectMode := DirectMode \<rparr>
     else l)"

text \<open>
  \<open>proxySelector\<close>: the receiver is a pointer and may be nil. The second argument is the
  number that \<^verbatim>\<open>rand.Intn(2)\<close> returns if the call is reached.
\<close>

definition proxySelector :: "Local option \<Rightarrow> int \<Rightarrow> Dialer option" where
  "proxySelector lp intn =
    (case lp of
       None \<Rightarrow> None
     | Some l \<Rightarrow>
        if selectMode l = AutoSelectMode then
          (if socks5Dialer l \<noteq> None then socks5Dialer l
           else if httpProxyDialer l \<noteq> None then httpProxyDialer l
           else directDialer l)
        else if selectMode l = RandomSelectMode then
          (if socks5Dialer l \<noteq> None \<and> httpProxyDialer l \<noteq> None then
             (if intn = 0 then socks5Dialer l else httpProxyDialer l)
           else if socks5Dialer l \<noteq> None then socks5Dialer l
           else httpProxyDialer l)
        else if selectMode l = OnlySocks5Mode then socks5Dialer l
        else if selectMode l = OnlyHttpProxyMode then httpProxyDialer l
        else if selectMode l = DirectMode then directDialer l
        else socks5Dialer l)"

section \<open>The FIFO record decoder\<close>

text \<open>
  \<^verbatim>\<open>strings.Split(s, ":")\<close>: the substrings between the separators, in order; a string
  without separator (the empty one too) gives one field.
\<close>

fun Split :: "string \<Rightarrow> char \<Rightarrow> string list" where
  "Split [] sep = [[]]"
| "Split (c # cs) sep =
     (if c = sep then [] # Split cs sep
      else (c # hd (Split cs sep)) # tl (Split cs sep))"

text \<open>
  One turn of the loop of \<open>UpdateProcessAddrInfo\<close> on a line that \<^verbatim>\<open>ReadLine\<close> returned.
  The lengths are Go \<^verbatim>\<open>int\<close>s; the slice expression \<^verbatim>\<open>copyLine[:n]\<close> panics when \<open>n\<close> is
  negative or beyond the length.
\<close>

datatype record_result =
    Malformed string
  | SlicePanic
  | StorePidAddrCall string string

definition UpdateProcessAddrInfo_line :: "string \<Rightarrow> record_result" where
  "UpdateProcessAddrInfo_line copyLine =
    (let s = Split copyLine CHR '':''
     in if length s < 3 then Malformed copyLine
        else if length s > 3 then
          (let pid = s ! (length s - 1);
               destPort = s ! (length s - 2);
               n = int (length copyLine) - 2 - int (length pid) - int (length destPort)
           in if n < 0 \<or> int (length copyLine) < n then SlicePanic
              else (let destIP = take (nat n) copyLine
                    in StorePidAddrCall pid (''['' @ destIP @ '']:'' @ destPort)))
        else
          (let pid = s ! 2;
               addr = s ! 0 @ '':'' @ s ! 1
           in StorePidAddrCall pid addr))"

text \<open>
  The loop itself: the lines read before \<^verbatim>\<open>ReadLine\<close> fails, in order. The result lists
  the \<^verbatim>\<open>go StorePidAddr(pid, addr)\<close> calls started, or is \<^const>\<open>None\<close> if a turn panicked.
\<close>

fun UpdateProcessAddrInfo :: "string list \<Rightarrow> (string \<times> string) list option" where
  "UpdateProcessAddrInfo [] = Some []"
| "UpdateProcessAddrInfo (line # rest) =
     (case UpdateProcessAddrInfo_line line of
        Malformed m \<Rightarrow> UpdateProcessAddrInfo rest
      | SlicePanic \<Rightarrow> None
      | StorePidAddrCall pid addr \<Rightarrow>
          map_option (\<lambda>calls. (pid, addr) # calls) (UpdateProcessAddrInfo rest))"

section \<open>The connection correlator\<close>

text \<open>
  What a function does to the world outside its own variables is written into a state:
  the registry of PID/address pairs, and the trace of the calls made, in order. Other
  goroutines (the FIFO decoder) store into the registry while \<open>getPidByAddr\<close> sleeps;
  \<open>arrivals\<close> lists, for each coming sleep, the pairs stored during it.
\<close>

record Conn =
  LocalAddr :: string
  RemoteAddr :: string

datatype chan = writeChan | readChan

datatype event =
    EvGetInodeByAddrs string string bool
  | EvRangePidAddr
  | EvSleep int
  | EvDeletePidAddr string
  | EvDial Dialer string string
  | EvNetDial string string
  | EvGoPipe Conn Conn chan
  | EvRecv chan
  | EvClose Conn

record World =
  registry :: "(string \<times> string) list"
  arrivals :: "(string \<times> string) list list"
  trace :: "event list"

text \<open>
  The helpers of the repository that \<open>getPidByAddr\<close> and \<open>HandleConn\<close> call and whose
  outcome depends on the kernel or the network are parameters: the inode lookup (error
  or inode), the test whether a process holds an inode, and the two ways of dialling
  (error or the new connection).
\<close>

record Sys =
  getInodeByAddrs :: "string \<Rightarrow> string \<Rightarrow> bool \<Rightarrow> string + string"
  hasIncludeInode :: "string \<Rightarrow> string \<Rightarrow> bool"
  Dial :: "Dialer \<Rightarrow> string \<Rightarrow> string \<Rightarrow> string + Conn"
  net_Dial :: "string \<Rightarrow> string \<Rightarrow> string + Conn"

text \<open>
  Modelled from the spec: the registry operations \<^verbatim>\<open>StorePidAddr\<close>, \<^verbatim>\<open>DeletePidAddr\<close> and
  \<^verbatim>\<open>RangePidAddr\<close> are not in \<^verbatim>\<open>local.go\<close>. The spec gives \<^verbatim>\<open>insert(pid, addr)\<close> with
  last-write-wins for a PID already present, \<^verbatim>\<open>remove(pid)\<close>, and
  \<^verbatim>\<open>forEachRegisteredPid(visit(pid, addr) -> continue?)\<close>, which visits the
  entries (insertion order acceptable) until the visitor answers false. The registry is
  an association list; the visitor's captured variables are the state \<open>'s\<close> it updates.
\<close>

definition StorePidAddr :: "string \<Rightarrow> string \<Rightarrow> (string \<times> string) list \<Rightarrow> (string \<times> string) list" where
  "StorePidAddr pid addr reg = AList.update pid addr reg"

definition DeletePidAddr :: "string \<Rightarrow> (string \<times> string) list \<Rightarrow> (string \<times> string) list" where
  "DeletePidAddr pid reg = AList.delete pid reg"

fun RangePidAddr ::
  "(string \<Rightarrow> string \<Rightarrow> 's \<Rightarrow> bool \<times> 's) \<Rightarrow> (string \<times> string) list \<Rightarrow> 's \<Rightarrow> 's" where
  "RangePidAddr f [] s = s"
| "RangePidAddr f ((p, a) # reg) s =
     (case f p a s of (continue, s') \<Rightarrow> if continue then RangePidAddr f reg s' else s')"

definition Millisecond :: int where
  "Millisecond = 1000000"

text \<open>
  \<^verbatim>\<open>time.Sleep(d)\<close>: the call is recorded, and the pairs that arrive during this sleep are
  stored.
\<close>

definition time_Sleep :: "int \<Rightarrow> World \<Rightarrow> World" where
  "time_Sleep d w =
     w \<lparr> registry := (case arrivals w of
                        [] \<Rightarrow> registry w
                      | batch # later \<Rightarrow> fold (\<lambda>(p, a). StorePidAddr p a) batch (registry w)),
         arrivals := tl (arrivals w),
         trace := trace w @ [EvSleep d] \<rparr>"

definition emit :: "event \<Rightarrow> World \<Rightarrow> World" where
  "emit e w = w \<lparr> trace := trace w @ [e] \<rparr>"

text \<open>
  The function literal passed to \<open>RangePidAddr\<close> in \<open>getPidByAddr\<close>; it assigns the
  captured results \<open>pid\<close> and \<open>destAddr\<close>.
\<close>

definition visit :: "Sys \<Rightarrow> string \<Rightarrow> string \<Rightarrow> string \<Rightarrow> string \<times> string \<Rightarrow> bool \<times> string \<times> string" where
  "visit sys inode p a res =
     (if hasIncludeInode sys p inode then (False, (p, a)) else (True, res))"

text \<open>The \<^verbatim>\<open>for i := 0; i < 3; i++\<close> loop of \<open>getPidByAddr\<close>, from the value of \<open>i\<close> on.\<close>

function getPidByAddr_loop ::
  "Sys \<Rightarrow> string \<Rightarrow> nat \<Rightarrow> string \<times> string \<Rightarrow> World \<Rightarrow> (string \<times> string) \<times> World" where
  "getPidByAddr_loop sys inode i res w =
     (if i < 3 then
        (let res' = RangePidAddr (visit sys inode) (registry w) res;
             w' = emit EvRangePidAddr w
         in if fst res' \<noteq> '''' then (res', w')
            else getPidByAddr_loop sys inode (i + 1) res' (time_Sleep (20 * Millisecond) w'))
      else (res, w))"
  by pat_completeness auto
termination
  by (relation "measure (\<lambda>(sys, inode, i, res, w). 3 - i)") auto

declare getPidByAddr_loop.simps [simp del]

definition getPidByAddr :: "Sys \<Rightarrow> string \<Rightarrow> string \<Rightarrow> bool \<Rightarrow> World \<Rightarrow> (string \<times> string) \<times> World" where
  "getPidByAddr sys localAddr remoteAddr isTCP6 w =
     (let w0 = emit (EvGetInodeByAddrs localAddr remoteAddr isTCP6) w
      in case getInodeByAddrs sys localAddr remoteAddr isTCP6 of
           Inl err \<Rightarrow> (('''', ''''), w0)
         | Inr inode \<Rightarrow>
             (case getPidByAddr_loop sys inode 0 ('''', '''') w0 of
                ((pid, destAddr), w1) \<Rightarrow>
                  if pid \<noteq> ''''
                  then ((pid, destAddr),
                        emit (EvDeletePidAddr pid) (w1 \<lparr> registry := DeletePidAddr pid (registry w1) \<rparr>))
                  else ((pid, destAddr), w1)))"

section \<open>Handling one accepted connection\<close>

text \<open>
  \<open>HandleConn\<close> returns its error (\<^const>\<open>None\<close> for nil). The relay at its end starts two
  \<open>pipe\<close> goroutines, receives from \<open>writeChan\<close>, then from \<open>readChan\<close>, and closes both
  connections; what the goroutines do in between is the subject of the next section.
\<close>

definition HandleConn :: "Sys \<Rightarrow> Local \<Rightarrow> int \<Rightarrow> Conn \<Rightarrow> World \<Rightarrow> string option \<times> World" where
  "HandleConn sys l intn conn w =
     (let raddr = RemoteAddr conn;
          isTCP6 = (CHR ''['' \<in> set (LocalAddr conn))
      in case getPidByAddr sys raddr (LocalAddr conn) isTCP6 w of
           ((pid, destAddr), w1) \<Rightarrow>
             if pid = '''' \<or> destAddr = ''''
             then (Some (''can't find the pid and destAddr for '' @ raddr), emit (EvClose conn) w1)
             else
               (case proxySelector (Some l) intn of
                  None \<Rightarrow> (Some ''bad dialer'', emit (EvClose conn) w1)
                | Some dialer \<Rightarrow>
                    (let w2 = emit (EvDial dialer ''tcp'' destAddr) w1;
                         r = Dial sys dialer ''tcp'' destAddr;
                         (r', w3) = (if isl r \<and> selectMode l = AutoSelectMode
                                     then (net_Dial sys ''tcp'' destAddr,
                                           emit (EvNetDial ''tcp'' destAddr) w2)
                                     else (r, w2))
                     in case r' of
                          Inl err \<Rightarrow> (Some err, emit (EvClose conn) w3)
                        | Inr destConn \<Rightarrow>
                            (None,
                             (emit (EvClose destConn) \<circ> emit (EvClose conn) \<circ>
                              emit (EvRecv readChan) \<circ> emit (EvRecv writeChan) \<circ>
                              emit (EvGoPipe destConn conn readChan) \<circ>
                              emit (EvGoPipe conn destConn writeChan)) w3))))"

section \<open>The relay: two \<open>pipe\<close> goroutines and the receiving \<open>HandleConn\<close>\<close>

text \<open>
  The last eight lines of \<open>HandleConn\<close> and the function \<open>pipe\<close> run as three goroutines.
  Each has a program counter naming the statement it executes next; a schedule is the
  list of the moves made, and a move that is not enabled makes the run undefined.
  The channels are unbuffered, so \<^verbatim>\<open>c <- n\<close> in \<open>pipe\<close> and the matching receive in
  \<open>HandleConn\<close> happen as one move, made when both goroutines stand there. When
  \<^verbatim>\<open>io.Copy\<close> returns, and with which count, is the schedule's choice. The clock is
  logical: it only moves forward, by the move \<open>Tick\<close>; \<^verbatim>\<open>time.Now()\<close> reads it.
\<close>

datatype main_pc =
    MainGoWrite | MainGoRead | MainRecvWrite | MainRecvRead
  | MainCloseConn | MainCloseDest | MainReturn

datatype pipe_pc =
    PipeIdle | PipeCopy | PipeNow int | PipeSetDst int nat | PipeSetSrc int nat
  | PipeSend int | PipeExit

datatype relay_event =
    RGo chan
  | RCopyReturn chan int
  | RSetDeadline chan Conn nat nat
  | RReport chan int
  | RClose Conn

datatype move = Tick | MoveMain | MovePipe chan int

record Relay =
  clientConn :: Conn
  upstreamConn :: Conn
  clock :: nat
  mainpc :: main_pc
  pipes :: "chan \<Rightarrow> pipe_pc"
  rtrace :: "relay_event list"

text \<open>
  \<^verbatim>\<open>go pipe(conn, destConn, writeChan)\<close> and \<^verbatim>\<open>go pipe(destConn, conn, readChan)\<close>: the
  arguments \<open>dst\<close> and \<open>src\<close> of the goroutine that reports on a channel.
\<close>

fun pipe_dst :: "Relay \<Rightarrow> chan \<Rightarrow> Conn" where
  "pipe_dst s writeChan = clientConn s"
| "pipe_dst s readChan = upstreamConn s"

fun pipe_src :: "Relay \<Rightarrow> chan \<Rightarrow> Conn" where
  "pipe_src s writeChan = upstreamConn s"
| "pipe_src s readChan = clientConn s"

definition relay_init :: "Conn \<Rightarrow> Conn \<Rightarrow> nat \<Rightarrow> Relay" where
  "relay_init conn destConn t0 =
     \<lparr> clientConn = conn, upstreamConn = destConn, clock = t0, mainpc = MainGoWrite,
       pipes = (\<lambda>c. PipeIdle), rtrace = [] \<rparr>"

definition record_event :: "relay_event \<Rightarrow> Relay \<Rightarrow> Relay" where
  "record_event e s = s \<lparr> rtrace := rtrace s @ [e] \<rparr>"

definition set_pipe :: "chan \<Rightarrow> pipe_pc \<Rightarrow> Relay \<Rightarrow> Relay" where
  "set_pipe c pc s = s \<lparr> pipes := (pipes s)(c := pc) \<rparr>"

text \<open>
  \<open>pipe\<close>, one statement at a time. The event of a \<^verbatim>\<open>SetDeadline\<close> call keeps the
  deadline passed and the clock at the call.
\<close>

definition pipe :: "chan \<Rightarrow> int \<Rightarrow> Relay \<Rightarrow> Relay option" where
  "pipe c n s =
     (case pipes s c of
        PipeIdle \<Rightarrow> None
      | PipeCopy \<Rightarrow> Some (record_event (RCopyReturn c n) (set_pipe c (PipeNow n) s))
      | PipeNow m \<Rightarrow> Some (set_pipe c (PipeSetDst m (clock s)) s)
      | PipeSetDst m now \<Rightarrow>
          Some (record_event (RSetDeadline c (pipe_dst s c) now (clock s))
                  (set_pipe c (PipeSetSrc m now) s))
      | PipeSetSrc m now \<Rightarrow>
          Some (record_event (RSetDeadline c (pipe_src s c) now (clock s))
                  (set_pipe c (PipeSend m) s))
      | PipeSend m \<Rightarrow> None
      | PipeExit \<Rightarrow> None)"

text \<open>A receive of \<open>HandleConn\<close> from channel \<open>c\<close>, going on to the statement \<open>next\<close>.\<close>

definition receive :: "chan \<Rightarrow> main_pc \<Rightarrow> Relay \<Rightarrow> Relay option" where
  "receive c next s =
     (case pipes s c of
        PipeSend m \<Rightarrow>
          Some (record_event (RReport c m) (set_pipe c PipeExit (s \<lparr> mainpc := next \<rparr>)))
      | _ \<Rightarrow> None)"

definition relay_main :: "Relay \<Rightarrow> Relay option" where
  "relay_main s =
     (case mainpc s of
        MainGoWrite \<Rightarrow>
          Some (record_event (RGo writeChan) (set_pipe writeChan PipeCopy (s \<lparr> mainpc := MainGoRead \<rparr>)))
      | MainGoRead \<Rightarrow>
          Some (record_event (RGo readChan) (set_pipe readChan PipeCopy (s \<lparr> mainpc := MainRecvWrite \<rparr>)))
      | MainRecvWrite \<Rightarrow> receive writeChan MainRecvRead s
      | MainRecvRead \<Rightarrow> receive readChan MainCloseConn s
      | MainCloseConn \<Rightarrow>
          Some (record_event (RClose (clientConn s)) (s \<lparr> mainpc := MainCloseDest \<rparr>))
      | MainCloseDest \<Rightarrow>
          Some (record_event (RClose (upstreamConn s)) (s \<lparr> mainpc := MainReturn \<rparr>))
      | MainReturn \<Rightarrow> None)"

fun relay_step :: "move \<Rightarrow> Relay \<Rightarrow> Relay option" where
  "relay_step Tick s = Some (s \<lparr> clock := Suc (clock s) \<rparr>)"
| "relay_step MoveMain s = relay_main s"
| "relay_step (MovePipe c n) s = pipe c n s"

fun relay_run :: "move list \<Rightarrow> Relay \<Rightarrow> Relay option" where
  "relay_run [] s = Some s"
| "relay_run (m # ms) s = (case relay_step m s of None \<Rightarrow> None | Some s' \<Rightarrow> relay_run ms s')"

text \<open>
  Properties of a relay trace. The first: every \<^verbatim>\<open>Close\<close> comes after the reports of both
  goroutines. The second: before a goroutine reports, its \<^verbatim>\<open>io.Copy\<close> has returned and it
  has then set a deadline on both connections. The third: a deadline set is never later
  than the clock at the call, and is set by a goroutine whose \<^verbatim>\<open>io.Copy\<close> has returned.
\<close>

definition reported :: "chan \<Rightarrow> relay_event list \<Rightarrow> bool" where
  "reported c tr = (\<exists>e \<in> set tr. case e of RReport c' n \<Rightarrow> c' = c | _ \<Rightarrow> False)"

definition copy_returned :: "chan \<Rightarrow> relay_event list \<Rightarrow> bool" where
  "copy_returned c tr = (\<exists>e \<in> set tr. case e of RCopyReturn c' n \<Rightarrow> c' = c | _ \<Rightarrow> False)"

definition deadline_set :: "chan \<Rightarrow> Conn \<Rightarrow> relay_event list \<Rightarrow> bool" where
  "deadline_set c k tr =
     (\<exists>e \<in> set tr. case e of RSetDeadline c' k' d t \<Rightarrow> c' = c \<and> k' = k | _ \<Rightarrow> False)"

text \<open>
  \<open>each_event P before tr\<close>: every event of \<open>tr\<close> satisfies \<open>P\<close> with respect to the
  events that precede it (those of \<open>before\<close>, then the earlier ones of \<open>tr\<close>).
\<close>

fun each_event ::
  "(relay_event \<Rightarrow> relay_event list \<Rightarrow> bool) \<Rightarrow> relay_event list \<Rightarrow> relay_event list \<Rightarrow> bool" where
  "each_event P before [] = True"
| "each_event P before (e # tr) = (P e before \<and> each_event P (before @ [e]) tr)"

definition close_after_reports :: "relay_event list \<Rightarrow> bool" where
  "close_after_reports tr =
     each_event (\<lambda>e before. case e of
          RClose k \<Rightarrow> reported writeChan before \<and> reported readChan before
        | _ \<Rightarrow> True) [] tr"

definition report_after_deadlines :: "Conn \<Rightarrow> Conn \<Rightarrow> relay_event list \<Rightarrow> bool" where
  "report_after_deadlines conn destConn tr =
     each_event (\<lambda>e before. case e of
          RReport c n \<Rightarrow> deadline_set c conn before \<and> deadline_set c destConn before
        | _ \<Rightarrow> True) [] tr"

definition deadlines_elapsed_after_copy :: "relay_event list \<Rightarrow> bool" where
  "deadlines_elapsed_after_copy tr =
     each_event (\<lambda>e before. case e of
          RSetDeadline c k d t \<Rightarrow> d \<le> t \<and> copy_returned c before
        | _ \<Rightarrow> True) [] tr"

text \<open>
  The invariant of the relay: what the trace holds, given where each goroutine stands.
\<close>

definition pipe_ok :: "Relay \<Rightarrow> chan \<Rightarrow> bool" where
  "pipe_ok s c =
     (case pipes s c of
        PipeIdle \<Rightarrow> True
      | PipeCopy \<Rightarrow> True
      | PipeNow m \<Rightarrow> copy_returned c (rtrace s)
      | PipeSetDst m now \<Rightarrow> copy_returned c (rtrace s) \<and> now \<le> clock s
      | PipeSetSrc m now \<Rightarrow>
          copy_returned c (rtrace s) \<and> now \<le> clock s \<and>
          deadline_set c (pipe_dst s c) (rtrace s)
      | PipeSend m \<Rightarrow>
          deadline_set c (pipe_dst s c) (rtrace s) \<and> deadline_set c (pipe_src s c) (rtrace s)
      | PipeExit \<Rightarrow> reported c (rtrace s))"

definition main_ok :: "Relay \<Rightarrow> bool" where
  "main_ok s =
     (case mainpc s of
        MainGoWrite \<Rightarrow> True
      | MainGoRead \<Rightarrow> True
      | MainRecvWrite \<Rightarrow> True
      | MainRecvRead \<Rightarrow> reported writeChan (rtrace s)
      | MainCloseConn \<Rightarrow> reported writeChan (rtrace s) \<and> reported readChan (rtrace s)
      | MainCloseDest \<Rightarrow> reported writeChan (rtrace s) \<and> reported readChan (rtrace s)
      | MainReturn \<Rightarrow> reported writeChan (rtrace s) \<and> reported readChan (rtrace s))"

definition relay_inv :: "Relay \<Rightarrow> bool" where
  "relay_inv s =
     (close_after_reports (rtrace s) \<and>
      report_after_deadlines (clientConn s) (upstreamConn s) (rtrace s) \<and>
      deadlines_elapsed_after_copy (rtrace s) \<and>
      pipe_ok s writeChan \<and> pipe_ok s readChan \<and> main_ok s)"

section \<open>Notions used in the statements\<close>

text \<open>
  The registry after the stores of some sleeps, the pairs a world holds or will receive,
  and the kinds of events.
\<close>

fun stores :: "(string \<times> string) list list \<Rightarrow> (string \<times> string) list \<Rightarrow> (string \<times> string) list" where
  "stores [] reg = reg"
| "stores (batch # later) reg = stores later (fold (\<lambda>(p, a). StorePidAddr p a) batch reg)"

definition entries :: "World \<Rightarrow> (string \<times> string) set" where
  "entries w = set (registry w) \<union> set (concat (arrivals w))"

fun is_lookup :: "event \<Rightarrow> bool" where
  "is_lookup (EvGetInodeByAddrs l r b) = True"
| "is_lookup e = False"

fun is_range :: "event \<Rightarrow> bool" where
  "is_range EvRangePidAddr = True"
| "is_range e = False"

fun is_delete :: "event \<Rightarrow> bool" where
  "is_delete (EvDeletePidAddr p) = True"
| "is_delete e = False"

text \<open>
  What the loop of \<open>getPidByAddr\<close>, entered with counter \<open>i\<close> in world \<open>w\<close>, has done
  when it leaves with \<open>out\<close> after \<open>k\<close> sleeps.
\<close>

definition loop_sleeps ::
  "nat \<Rightarrow> nat \<Rightarrow> World \<Rightarrow> (string \<times> string) \<times> World \<Rightarrow> bool" where
  "loop_sleeps k i w out =
     (k \<le> 3 - i \<and>
      registry (snd out) = stores (take k (arrivals w)) (registry w) \<and>
      arrivals (snd out) = drop k (arrivals w) \<and>
      trace (snd out) = trace w @ concat (replicate k [EvRangePidAddr, EvSleep (20 * Millisecond)])
                         @ (if fst (fst out) \<noteq> [] then [EvRangePidAddr] else []) \<and>
      (fst (fst out) = [] \<longrightarrow> k = 3 - i) \<and>
      (fst (fst out) \<noteq> [] \<longrightarrow> k < 3 - i \<and> fst out \<in> set (registry (snd out))))"

definition loop_post ::
  "Sys \<Rightarrow> string \<Rightarrow> nat \<Rightarrow> string \<times> string \<Rightarrow> World \<Rightarrow> (string \<times> string) \<times> World \<Rightarrow> bool" where
  "loop_post sys inode i res w out =
     ((\<exists>k. loop_sleeps k i w out) \<and>
      (fst out = res \<or> (fst out \<in> entries w \<and> hasIncludeInode sys (fst (fst out)) inode)))"

section \<open>Example inputs\<close>

text \<open>
  A resolver for which only the address \<^verbatim>\<open>unresolvable\<close> fails, and the node that
  \<open>NewLocal\<close> builds with it when the SOCKS5 address is that one.
\<close>

definition example_resolver :: Resolver where
  "example_resolver =
     \<lparr> ResolveTCPAddr = (\<lambda>network address.
          if address = ''unresolvable'' then Inl ''missing port in address'' else Inr address),
       proxy_SOCKS5 = (\<lambda>network address auth forward. Inr (SOCKS5 network address auth forward)),
       proxy_FromURL = (\<lambda>u forward. Inr (FromURL u forward)) \<rparr>"

definition example_http_only :: Local where
  "example_http_only =
     \<lparr> faddr = ''127.0.0.1:2233'', faddrString = ''127.0.0.1:2233'',
       socks5Dialer = None, httpProxyDialer = Some (FromURL ''http://127.0.0.1:8080'' Direct),
       directDialer = Some Direct, selectMode = 0 \<rparr>"

text \<open>
  A kernel in which the socket of every endpoint pair but one has inode 77, held by
  process 42 only; every dial through a dialer is refused, and a plain dial reaches
  one address.
\<close>

definition example_sys :: Sys where
  "example_sys =
     \<lparr> getInodeByAddrs = (\<lambda>localAddr remoteAddr isTCP6.
          if localAddr = ''10.0.0.9:9'' then Inl ''no such socket'' else Inr ''77''),
       hasIncludeInode = (\<lambda>pid inode. pid = ''42'' \<and> inode = ''77''),
       Dial = (\<lambda>dialer network addr. Inl ''connection refused''),
       net_Dial = (\<lambda>network addr.
          if addr = ''1.2.3.4:80'' then Inr \<lparr> LocalAddr = ''10.0.0.1:5555'', RemoteAddr = addr \<rparr>
          else Inl ''network is unreachable'') \<rparr>"

definition example_world :: "(string \<times> string) list \<Rightarrow> (string \<times> string) list list \<Rightarrow> World" where
  "example_world reg arr = \<lparr> registry = reg, arrivals = arr, trace = [] \<rparr>"

text \<open>
  An accepted connection, a resolver with which both proxy constructors fail, and the
  node that \<open>NewLocal\<close> builds with it: no proxy dialer, only the direct one.
\<close>

definition example_conn :: Conn where
  "example_conn = \<lparr> LocalAddr = ''127.0.0.1:2233'', RemoteAddr = ''127.0.0.1:40000'' \<rparr>"

definition example_broken_resolver :: Resolver where
  "example_broken_resolver =
     \<lparr> ResolveTCPAddr = (\<lambda>network address. Inr address),
       proxy_SOCKS5 = (\<lambda>network address auth forward. Inl ''socks5 dialer failed''),
       proxy_FromURL = (\<lambda>u forward. Inl ''proxy: unknown scheme: http'') \<rparr>"

definition example_no_proxy :: Local where
  "example_no_proxy =
     \<lparr> faddr = ''127.0.0.1:2233'', faddrString = ''127.0.0.1:2233'',
       socks5Dialer = None, httpProxyDialer = None,
       directDialer = Some Direct, selectMode = 0 \<rparr>"

text \<open>
  The upstream connection of a relay session, a schedule that runs the session to its
  end, and the trace of that run.
\<close>

definition example_upstream :: Conn where
  "example_upstream = \<lparr> LocalAddr = ''10.0.0.1:5555'', RemoteAddr = ''1.2.3.4:80'' \<rparr>"

definition example_schedule :: "move list" where
  "example_schedule =
     [MoveMain, MoveMain, MovePipe writeChan 512, Tick,
      MovePipe writeChan 0, Tick, MovePipe writeChan 0, MovePipe readChan 64,
      MovePipe writeChan 0, MovePipe readChan 0, MoveMain, Tick, MovePipe readChan 0,
      MovePipe readChan 0, MoveMain, MoveMain, MoveMain]"

definition example_relay_trace :: "relay_event list" where
  "example_relay_trace =
     [RGo writeChan, RGo readChan, RCopyReturn writeChan 512,
      RSetDeadline writeChan example_conn 101 102, RCopyReturn readChan 64,
      RSetDeadline writeChan example_upstream 101 102, RReport writeChan 512,
      RSetDeadline readChan example_upstream 102 103,
      RSetDeadline readChan example_conn 102 103, RReport readChan 64,
      RClose example_conn, RClose example_upstream]"

section \<open>Facts about the definitions\<close>

lemmas modeT_defs =
  AutoSelectMode_def RandomSelectMode_def OnlySocks5Mode_def OnlyHttpProxyMode_def DirectMode_def

lemma example_http_only_NewLocal:
  "NewLocal example_resolver ''127.0.0.1:2233'' ''unresolvable'' [] [] ''127.0.0.1:8080''
     = Inr example_http_only"
  by (simp add: NewLocal_def example_resolver_def example_http_only_def)

lemma NewLocal_fields:
  assumes "NewLocal sys la sa su sp ha = Inr l0"
  shows "selectMode l0 = AutoSelectMode \<and> directDialer l0 = Some Direct"
  using assms
  by (auto simp: NewLocal_def Let_def AutoSelectMode_def split: sum.splits if_splits)

lemma SetSelectMode_dialers:
  "socks5Dialer (SetSelectMode mode l) = socks5Dialer l \<and>
   httpProxyDialer (SetSelectMode mode l) = httpProxyDialer l \<and>
   directDialer (SetSelectMode mode l) = directDialer l"
  by (simp add: SetSelectMode_def)

lemma fold_SetSelectMode_dialers:
  "socks5Dialer (fold SetSelectMode modes l) = socks5Dialer l \<and>
   httpProxyDialer (fold SetSelectMode modes l) = httpProxyDialer l \<and>
   directDialer (fold SetSelectMode modes l) = directDialer l"
  by (induction modes arbitrary: l) (simp_all add: SetSelectMode_dialers)

lemma SetSelectMode_invalid:
  assumes "mode \<notin> {''auto'', ''random'', ''only_http_proxy'', ''only_socks5'', ''direct''}"
  shows "SetSelectMode mode l = l"
  using assms by (simp add: SetSelectMode_def)

subsection \<open>The registry and the retry loop\<close>

lemma RangePidAddr_no_owner:
  assumes "\<forall>p \<in> fst ` set reg. \<not> hasIncludeInode sys p inode"
  shows "RangePidAddr (visit sys inode) reg res = res"
  using assms by (induction reg) (auto simp: visit_def)

lemma RangePidAddr_cases:
  "RangePidAddr (visit sys inode) reg res = res \<or>
   (RangePidAddr (visit sys inode) reg res \<in> set reg \<and>
    hasIncludeInode sys (fst (RangePidAddr (visit sys inode) reg res)) inode)"
  by (induction reg) (auto simp: visit_def)

lemma set_update_subset: "set (AList.update k v al) \<subseteq> insert (k, v) (set al)"
  by (induction al) auto

lemma set_fold_StorePidAddr:
  "set (fold (\<lambda>(p, a). StorePidAddr p a) batch reg) \<subseteq> set batch \<union> set reg"
proof (induction batch arbitrary: reg)
  case Nil
  show ?case by simp
next
  case (Cons e batch)
  obtain p a where e: "e = (p, a)" by (cases e)
  have "set (StorePidAddr p a reg) \<subseteq> insert (p, a) (set reg)"
    unfolding StorePidAddr_def by (rule set_update_subset)
  with Cons [of "StorePidAddr p a reg"] show ?case
    by (auto simp: e)
qed

lemma entries_emit [simp]: "entries (emit e w) = entries w"
  by (simp add: entries_def emit_def)

lemma entries_time_Sleep: "entries (time_Sleep d w) \<subseteq> entries w"
  using set_fold_StorePidAddr
  by (cases "arrivals w") (fastforce simp: entries_def time_Sleep_def)+

lemma registry_subset_entries: "set (registry w) \<subseteq> entries w"
  by (simp add: entries_def)

lemma time_Sleep_stores:
  "registry (time_Sleep d w) = stores (take 1 (arrivals w)) (registry w) \<and>
   arrivals (time_Sleep d w) = drop 1 (arrivals w) \<and>
   trace (time_Sleep d w) = trace w @ [EvSleep d]"
  by (cases "arrivals w") (simp_all add: time_Sleep_def drop_Suc)

lemma stores_Suc:
  "stores (take k (drop 1 bs)) (stores (take 1 bs) reg) = stores (take (Suc k) bs) reg"
  by (cases bs) simp_all

lemma loop_no_owner:
  assumes "\<forall>p \<in> fst ` entries w. \<not> hasIncludeInode sys p inode" and "fst res = []"
  shows "getPidByAddr_loop sys inode i res w =
           (res, snd (getPidByAddr_loop sys inode i res w)) \<and>
         trace (snd (getPidByAddr_loop sys inode i res w)) =
           trace w @ concat (replicate (3 - i) [EvRangePidAddr, EvSleep (20 * Millisecond)])"
  using assms
proof (induction sys inode i res w rule: getPidByAddr_loop.induct)
  case (1 sys inode i res w)
  show ?case
  proof (cases "i < 3")
    case False
    then show ?thesis
      by (simp add: getPidByAddr_loop.simps [of sys inode i res w])
  next
    case True
    have rng: "RangePidAddr (visit sys inode) (registry w) res = res"
      using "1.prems" registry_subset_entries [of w]
      by (intro RangePidAddr_no_owner) auto
    show ?thesis
    proof (cases "fst res \<noteq> []")
      case True
      with "1.prems" show ?thesis by simp
    next
      case False
      let ?w' = "time_Sleep (20 * Millisecond) (emit EvRangePidAddr w)"
      have sub: "\<forall>p \<in> fst ` entries ?w'. \<not> hasIncludeInode sys p inode"
        using "1.prems" entries_time_Sleep [of "20 * Millisecond" "emit EvRangePidAddr w"]
        by auto
      have ih: "getPidByAddr_loop sys inode (i + 1) res ?w' =
           (res, snd (getPidByAddr_loop sys inode (i + 1) res ?w')) \<and>
         trace (snd (getPidByAddr_loop sys inode (i + 1) res ?w')) =
           trace ?w' @ concat (replicate (3 - (i + 1)) [EvRangePidAddr, EvSleep (20 * Millisecond)])"
        using "1.IH" [OF \<open>i < 3\<close> refl refl _ sub] False rng by simp
      have unf: "getPidByAddr_loop sys inode i res w = getPidByAddr_loop sys inode (i + 1) res ?w'"
        using \<open>i < 3\<close> False rng
        by (simp add: getPidByAddr_loop.simps [of sys inode i res w] Let_def)
      have rep: "replicate (3 - i) [EvRangePidAddr, EvSleep (20 * Millisecond)] =
                 [EvRangePidAddr, EvSleep (20 * Millisecond)] #
                 replicate (3 - (i + 1)) [EvRangePidAddr, EvSleep (20 * Millisecond)]"
        using \<open>i < 3\<close> by (cases "3 - i") (auto simp: )
      show ?thesis
        using ih unfolding unf rep
        by (simp add: time_Sleep_def emit_def)
    qed
  qed
qed

lemma loop_effect:
  assumes "fst res = []"
  shows "loop_post sys inode i res w (getPidByAddr_loop sys inode i res w)"
  using assms
proof (induction sys inode i res w rule: getPidByAddr_loop.induct)
  case (1 sys inode i res w)
  show ?case
  proof (cases "i < 3")
    case False
    then show ?thesis
      using "1.prems"
      by (simp add: getPidByAddr_loop.simps [of sys inode i res w] loop_post_def loop_sleeps_def
          exI [of _ 0])
  next
    case True
    define res1 where "res1 = RangePidAddr (visit sys inode) (registry w) res"
    define w1 where "w1 = emit EvRangePidAddr w"
    have r1: "res1 = res \<or> (res1 \<in> set (registry w) \<and> hasIncludeInode sys (fst res1) inode)"
      unfolding res1_def by (rule RangePidAddr_cases)
    show ?thesis
    proof (cases "fst res1 \<noteq> []")
      case True
      have unf: "getPidByAddr_loop sys inode i res w = (res1, w1)"
        using \<open>i < 3\<close> True
        by (simp add: getPidByAddr_loop.simps [of sys inode i res w] Let_def res1_def w1_def)
      have "res1 \<noteq> res" using True "1.prems" by auto
      with r1 have mem: "res1 \<in> set (registry w)" "hasIncludeInode sys (fst res1) inode"
        by auto
      have "loop_sleeps 0 i w (res1, w1)"
        using True \<open>i < 3\<close> mem by (simp add: loop_sleeps_def w1_def emit_def)
      then have "\<exists>k. loop_sleeps k i w (res1, w1)" ..
      moreover have "res1 \<in> entries w"
        using mem(1) registry_subset_entries [of w] by auto
      ultimately show ?thesis
        unfolding unf loop_post_def using mem(2) by simp
    next
      case False
      define w2 where "w2 = time_Sleep (20 * Millisecond) w1"
      define out where "out = getPidByAddr_loop sys inode (i + 1) res1 w2"
      obtain res' w' where out: "out = (res', w')" by (cases out)
      have unf: "getPidByAddr_loop sys inode i res w = (res', w')"
        using \<open>i < 3\<close> False out
        by (simp add: getPidByAddr_loop.simps [of sys inode i res w] Let_def res1_def w1_def
            w2_def out_def)
      have "loop_post sys inode (i + 1) res1 w2 out"
        unfolding out_def w2_def w1_def res1_def
        using "1.IH" [OF \<open>i < 3\<close> refl refl] False
        by (simp add: res1_def)
      then obtain k where k: "loop_sleeps k (i + 1) w2 (res', w')"
        and origin: "res' = res1 \<or> (res' \<in> entries w2 \<and> hasIncludeInode sys (fst res') inode)"
        unfolding loop_post_def out by auto
      have w2: "registry w2 = stores (take 1 (arrivals w)) (registry w)"
               "arrivals w2 = drop 1 (arrivals w)"
               "trace w2 = trace w @ [EvRangePidAddr, EvSleep (20 * Millisecond)]"
        using time_Sleep_stores [of "20 * Millisecond" w1]
        by (simp_all add: w2_def w1_def emit_def)
      have sub: "entries w2 \<subseteq> entries w"
        using entries_time_Sleep [of "20 * Millisecond" w1] by (simp add: w2_def w1_def)
      have "loop_sleeps (Suc k) i w (res', w')"
        using k \<open>i < 3\<close> stores_Suc [of k "arrivals w" "registry w"]
        by (auto simp: loop_sleeps_def w2)
      then have "\<exists>k. loop_sleeps k i w (res', w')" ..
      moreover have "res' = res \<or> (res' \<in> entries w \<and> hasIncludeInode sys (fst res') inode)"
        using origin r1 sub registry_subset_entries [of w] by auto
      ultimately show ?thesis
        unfolding unf loop_post_def by simp
    qed
  qed
qed

lemma example_no_proxy_NewLocal:
  "NewLocal example_broken_resolver ''127.0.0.1:2233'' ''127.0.0.1:1080'' [] [] ''127.0.0.1:8080''
     = Inr example_no_proxy"
  by (simp add: NewLocal_def example_broken_resolver_def example_no_proxy_def)

lemmas example_eval =
  getPidByAddr_def getPidByAddr_loop.simps Let_def example_sys_def example_world_def
  emit_def time_Sleep_def visit_def StorePidAddr_def DeletePidAddr_def

lemma getPidByAddr_found:
  assumes "getInodeByAddrs sys la ra v6 = Inr inode"
      and "getPidByAddr_loop sys inode 0 ([], []) (emit (EvGetInodeByAddrs la ra v6) w) = ((p, d), w1)"
  shows "getPidByAddr sys la ra v6 w =
           ((p, d), if p \<noteq> [] then emit (EvDeletePidAddr p) (w1 \<lparr> registry := DeletePidAddr p (registry w1) \<rparr>)
                    else w1)"
  using assms by (simp add: getPidByAddr_def Let_def)

lemma filter_is_delete_passes:
  "filter is_delete (concat (replicate k [EvRangePidAddr, EvSleep d])) = []"
  by (induction k) simp_all

subsection \<open>Splitting a record at the colons\<close>

lemma Split_not_Nil [simp]: "Split s sep \<noteq> []"
  by (cases s) simp_all

lemma Split_no_sep: "sep \<notin> set s \<Longrightarrow> Split s sep = [s]"
  by (induction s) auto

lemma Split_append_sep: "Split (a @ sep # b) sep = Split a sep @ Split b sep"
proof (induction a)
  case Nil
  show ?case by simp
next
  case (Cons c a)
  then show ?case by (cases "Split a sep") auto
qed

lemma Split_length_one: "length (Split s sep) = 1 \<Longrightarrow> Split s sep = [s]"
proof (induction s)
  case Nil
  show ?case by simp
next
  case (Cons c s)
  show ?case
  proof (cases "c = sep")
    case True
    with Cons.prems show ?thesis by simp
  next
    case False
    with Cons.prems have "length (Split s sep) = 1"
      by (cases "Split s sep") auto
    then have "Split s sep = [s]" by (rule Cons.IH)
    with False show ?thesis by simp
  qed
qed

lemma Split_with_sep: "sep \<in> set s \<Longrightarrow> 2 \<le> length (Split s sep)"
proof (induction s)
  case Nil
  then show ?case by simp
next
  case (Cons c s)
  show ?case
  proof (cases "c = sep")
    case True
    then show ?thesis by (cases "Split s sep") auto
  next
    case False
    with Cons show ?thesis by (cases "Split s sep") auto
  qed
qed

lemma Split_last:
  assumes "2 \<le> length (Split s sep)"
  shows "\<exists>a. s = a @ sep # last (Split s sep) \<and> Split a sep = butlast (Split s sep)"
  using assms
proof (induction s)
  case Nil
  then show ?case by simp
next
  case (Cons c s)
  show ?case
  proof (cases "2 \<le> length (Split s sep)")
    case True
    define l where "l = last (Split s sep)"
    obtain a where a: "s = a @ sep # l" "Split a sep = butlast (Split s sep)"
      using Cons.IH [OF True] unfolding l_def by blast
    obtain x y ys where xs: "Split s sep = x # y # ys"
      using True by (cases "Split s sep"; cases "tl (Split s sep)") auto
    have la: "last (Split (c # s) sep) = l"
      unfolding l_def using xs by simp
    have bl: "butlast (Split (c # s) sep) = Split (c # a) sep"
      using xs by (simp add: a(2))
    have "c # s = (c # a) @ sep # last (Split (c # s) sep)"
      unfolding la using a(1) by simp
    then show ?thesis using bl by metis
  next
    case False
    moreover have "length (Split s sep) \<noteq> 0" by simp
    ultimately have "length (Split s sep) = 1" by linarith
    then have one: "Split s sep = [s]" by (rule Split_length_one)
    with Cons.prems have c: "c = sep"
      by (auto split: if_splits)
    have "c # s = [] @ sep # last (Split (c # s) sep) \<and> Split [] sep = butlast (Split (c # s) sep)"
      using c one by simp
    then show ?thesis by blast
  qed
qed

lemma last_butlast_nth:
  assumes "2 \<le> length xs"
  shows "last (butlast xs) = xs ! (length xs - 2)"
proof -
  have ne: "butlast xs \<noteq> []"
  proof
    assume "butlast xs = []"
    then have "length (butlast xs) = length ([] :: 'a list)" by (rule arg_cong)
    then show False using assms by simp
  qed
  have "length xs - 2 < length (butlast xs)" using assms by simp
  then have "butlast xs ! (length xs - 2) = xs ! (length xs - 2)"
    by (rule nth_butlast)
  moreover have "length (butlast xs) - 1 = length xs - 2" by simp
  ultimately show ?thesis
    using last_conv_nth [OF ne] by simp
qed

lemma Split_last_two:
  assumes "3 \<le> length (Split line sep)"
  shows "\<exists>ip. line = ip @ sep # Split line sep ! (length (Split line sep) - 2)
                        @ sep # Split line sep ! (length (Split line sep) - 1) \<and>
              length (Split ip sep) = length (Split line sep) - 2"
proof -
  let ?s = "Split line sep"
  have "2 \<le> length ?s" using assms by simp
  then obtain a where a: "line = a @ sep # last ?s" "Split a sep = butlast ?s"
    using Split_last by blast
  have "2 \<le> length (Split a sep)" using assms a(2) by simp
  then obtain b where b: "a = b @ sep # last (Split a sep)" "Split b sep = butlast (Split a sep)"
    using Split_last by blast
  have l1: "last ?s = ?s ! (length ?s - 1)"
    by (simp add: last_conv_nth)
  have l2: "last (Split a sep) = ?s ! (length ?s - 2)"
    using assms by (simp add: a(2) last_butlast_nth)
  have "line = b @ sep # ?s ! (length ?s - 2) @ sep # ?s ! (length ?s - 1)"
    using a(1) b(1) l1 l2 by simp
  moreover have "length (Split b sep) = length ?s - 2"
    by (simp add: b(2) a(2))
  ultimately show ?thesis by blast
qed

lemma decode_ipv6_shape:
  assumes "3 < length (Split line CHR '':'')"
      and "line = ip @ CHR '':'' # Split line CHR '':'' ! (length (Split line CHR '':'') - 2)
                     @ CHR '':'' # Split line CHR '':'' ! (length (Split line CHR '':'') - 1)"
  shows "UpdateProcessAddrInfo_line line =
           StorePidAddrCall (Split line CHR '':'' ! (length (Split line CHR '':'') - 1))
             (''['' @ ip @ '']:'' @ Split line CHR '':'' ! (length (Split line CHR '':'') - 2)) \<and>
         int (length line) - 2
           - int (length (Split line CHR '':'' ! (length (Split line CHR '':'') - 1)))
           - int (length (Split line CHR '':'' ! (length (Split line CHR '':'') - 2)))
           = int (length ip)"
proof -
  define s where "s = Split line CHR '':''"
  define pid where "pid = s ! (length s - 1)"
  define destPort where "destPort = s ! (length s - 2)"
  have line: "line = ip @ CHR '':'' # destPort @ CHR '':'' # pid"
    using assms(2) unfolding s_def pid_def destPort_def .
  have len: "length line = length ip + 2 + length destPort + length pid"
    by (subst line) simp
  have n: "int (length line) - 2 - int (length pid) - int (length destPort) = int (length ip)"
    using len by simp
  have tk: "take (length ip) line = ip"
    by (subst line) simp
  have big: "3 < length s" using assms(1) by (simp add: s_def)
  have "UpdateProcessAddrInfo_line line = StorePidAddrCall pid (''['' @ ip @ '']:'' @ destPort)"
    unfolding UpdateProcessAddrInfo_line_def Let_def s_def [symmetric]
    unfolding pid_def [symmetric] destPort_def [symmetric] n
    using big tk len by simp
  then show ?thesis
    using n unfolding pid_def destPort_def s_def by simp
qed

subsection \<open>The invariant of the relay\<close>

lemma reported_snoc:
  "reported c (tr @ [e]) = (reported c tr \<or> (case e of RReport c' n \<Rightarrow> c' = c | _ \<Rightarrow> False))"
  by (auto simp: reported_def)

lemma copy_returned_snoc:
  "copy_returned c (tr @ [e]) =
     (copy_returned c tr \<or> (case e of RCopyReturn c' n \<Rightarrow> c' = c | _ \<Rightarrow> False))"
  by (auto simp: copy_returned_def)

lemma deadline_set_snoc:
  "deadline_set c k (tr @ [e]) =
     (deadline_set c k tr \<or> (case e of RSetDeadline c' k' d t \<Rightarrow> c' = c \<and> k' = k | _ \<Rightarrow> False))"
  by (auto simp: deadline_set_def)

lemma each_event_snoc:
  "each_event P before (tr @ [e]) = (each_event P before tr \<and> P e (before @ tr))"
  by (induction tr arbitrary: before) auto

lemma close_after_reports_snoc:
  "close_after_reports (tr @ [e]) =
     (close_after_reports tr \<and>
      (case e of RClose k \<Rightarrow> reported writeChan tr \<and> reported readChan tr | _ \<Rightarrow> True))"
  by (simp add: close_after_reports_def each_event_snoc)

lemma report_after_deadlines_snoc:
  "report_after_deadlines conn destConn (tr @ [e]) =
     (report_after_deadlines conn destConn tr \<and>
      (case e of RReport c n \<Rightarrow> deadline_set c conn tr \<and> deadline_set c destConn tr | _ \<Rightarrow> True))"
  by (simp add: report_after_deadlines_def each_event_snoc)

lemma deadlines_elapsed_after_copy_snoc:
  "deadlines_elapsed_after_copy (tr @ [e]) =
     (deadlines_elapsed_after_copy tr \<and>
      (case e of RSetDeadline c k d t \<Rightarrow> d \<le> t \<and> copy_returned c tr | _ \<Rightarrow> True))"
  by (simp add: deadlines_elapsed_after_copy_def each_event_snoc)

lemmas snoc_simps =
  reported_snoc copy_returned_snoc deadline_set_snoc close_after_reports_snoc
  report_after_deadlines_snoc deadlines_elapsed_after_copy_snoc

lemma relay_inv_init: "relay_inv (relay_init conn destConn t0)"
  by (simp add: relay_inv_def relay_init_def pipe_ok_def main_ok_def close_after_reports_def
      report_after_deadlines_def deadlines_elapsed_after_copy_def)

lemma both_conns:
  "deadline_set c (pipe_dst s c) tr \<Longrightarrow> deadline_set c (pipe_src s c) tr \<Longrightarrow>
   deadline_set c (clientConn s) tr \<and> deadline_set c (upstreamConn s) tr"
  by (cases c) simp_all

lemma main_ok_frame:
  assumes "main_ok s" and "mainpc s' = mainpc s" and "rtrace s' = rtrace s @ es"
  shows "main_ok s'"
  using assms by (auto simp: main_ok_def reported_def split: main_pc.splits)

lemma pipe_ok_frame:
  assumes "pipe_ok s c" and "pipes s' c = pipes s c" and "rtrace s' = rtrace s @ es"
      and "clock s \<le> clock s'"
      and "clientConn s' = clientConn s" and "upstreamConn s' = upstreamConn s"
  shows "pipe_ok s' c"
proof -
  have dst: "pipe_dst s' c = pipe_dst s c" and src: "pipe_src s' c = pipe_src s c"
    using assms(5,6) by (cases c; simp)+
  show ?thesis
    using assms(1-4)
    by (auto simp: pipe_ok_def dst src reported_def copy_returned_def deadline_set_def
        split: pipe_pc.splits)
qed

lemma tick_preserves:
  assumes "relay_inv s"
  shows "relay_inv (s \<lparr> clock := Suc (clock s) \<rparr>)"
proof -
  let ?s' = "s \<lparr> clock := Suc (clock s) \<rparr>"
  have "pipe_ok ?s' writeChan" "pipe_ok ?s' readChan"
    using assms by (auto simp: relay_inv_def intro: pipe_ok_frame [where es = "[]"])
  moreover have "main_ok ?s'"
    using assms by (auto simp: relay_inv_def intro: main_ok_frame [where es = "[]"])
  ultimately show ?thesis
    using assms by (simp add: relay_inv_def)
qed

lemma relay_inv_all:
  "relay_inv s =
     (close_after_reports (rtrace s) \<and>
      report_after_deadlines (clientConn s) (upstreamConn s) (rtrace s) \<and>
      deadlines_elapsed_after_copy (rtrace s) \<and>
      (\<forall>c. pipe_ok s c) \<and> main_ok s)"
proof -
  have "(\<forall>c. pipe_ok s c) = (pipe_ok s writeChan \<and> pipe_ok s readChan)"
    by (metis chan.exhaust)
  then show ?thesis by (simp add: relay_inv_def)
qed

lemma pipe_step_inv:
  assumes inv: "relay_inv s"
      and fields: "pipes s' = (pipes s)(c := pc')" "rtrace s' = rtrace s @ es"
                  "clock s' = clock s" "clientConn s' = clientConn s"
                  "upstreamConn s' = upstreamConn s" "mainpc s' = mainpc s"
      and tr: "close_after_reports (rtrace s @ es)"
              "report_after_deadlines (clientConn s) (upstreamConn s) (rtrace s @ es)"
              "deadlines_elapsed_after_copy (rtrace s @ es)"
      and new: "pipe_ok s' c"
  shows "relay_inv s'"
proof -
  have old: "\<And>c'. pipe_ok s c'" and m: "main_ok s"
    using inv by (simp_all add: relay_inv_all)
  have "pipe_ok s' c'" for c'
  proof (cases "c' = c")
    case True
    with new show ?thesis by simp
  next
    case False
    have "pipes s' c' = pipes s c'" using False by (simp add: fields(1))
    with old [of c'] show ?thesis
      by (rule pipe_ok_frame) (simp_all add: fields)
  qed
  moreover have "main_ok s'"
    using m fields(6) fields(2) by (rule main_ok_frame)
  ultimately show ?thesis
    using tr by (simp add: relay_inv_all fields)
qed

lemma pipe_dst_src_fields:
  assumes "clientConn s' = clientConn s" and "upstreamConn s' = upstreamConn s"
  shows "pipe_dst s' c = pipe_dst s c \<and> pipe_src s' c = pipe_src s c"
  using assms by (cases c) simp_all

lemma pipe_preserves:
  assumes step: "pipe c n s = Some s'" and inv: "relay_inv s"
  shows "relay_inv s'"
proof -
  have ok: "pipe_ok s c" and tr: "close_after_reports (rtrace s)"
      "report_after_deadlines (clientConn s) (upstreamConn s) (rtrace s)"
      "deadlines_elapsed_after_copy (rtrace s)"
    using inv by (simp_all add: relay_inv_all)
  show ?thesis
  proof (cases "pipes s c")
    case PipeIdle
    with step show ?thesis by (simp add: pipe_def)
  next
    case PipeCopy
    with step have s': "s' = record_event (RCopyReturn c n) (set_pipe c (PipeNow n) s)"
      by (simp add: pipe_def)
    show ?thesis
    proof (rule pipe_step_inv [OF inv, where c = c and pc' = "PipeNow n" and es = "[RCopyReturn c n]"])
      show "pipe_ok s' c"
        by (simp add: pipe_ok_def s' record_event_def set_pipe_def snoc_simps)
    qed (use tr in \<open>simp_all add: s' record_event_def set_pipe_def snoc_simps\<close>)
  next
    case (PipeNow m)
    with step have s': "s' = set_pipe c (PipeSetDst m (clock s)) s"
      by (simp add: pipe_def)
    show ?thesis
    proof (rule pipe_step_inv [OF inv, where c = c and pc' = "PipeSetDst m (clock s)" and es = "[]"])
      show "pipe_ok s' c"
        using ok PipeNow by (simp add: pipe_ok_def s' set_pipe_def)
    qed (use tr in \<open>simp_all add: s' set_pipe_def\<close>)
  next
    case (PipeSetDst m now)
    with step have s': "s' = record_event (RSetDeadline c (pipe_dst s c) now (clock s))
                               (set_pipe c (PipeSetSrc m now) s)"
      by (simp add: pipe_def)
    have ok': "copy_returned c (rtrace s)" "now \<le> clock s"
      using ok PipeSetDst by (simp_all add: pipe_ok_def)
    have same: "pipe_dst s' c = pipe_dst s c"
      using pipe_dst_src_fields [of s' s c] by (simp add: s' record_event_def set_pipe_def)
    show ?thesis
    proof (rule pipe_step_inv [OF inv, where c = c and pc' = "PipeSetSrc m now"
          and es = "[RSetDeadline c (pipe_dst s c) now (clock s)]"])
      show "pipe_ok s' c"
        unfolding pipe_ok_def same using ok'
        by (simp add: s' record_event_def set_pipe_def snoc_simps)
    qed (use tr ok' in \<open>simp_all add: s' record_event_def set_pipe_def snoc_simps\<close>)
  next
    case (PipeSetSrc m now)
    with step have s': "s' = record_event (RSetDeadline c (pipe_src s c) now (clock s))
                               (set_pipe c (PipeSend m) s)"
      by (simp add: pipe_def)
    have ok': "copy_returned c (rtrace s)" "now \<le> clock s"
        "deadline_set c (pipe_dst s c) (rtrace s)"
      using ok PipeSetSrc by (simp_all add: pipe_ok_def)
    have same: "pipe_dst s' c = pipe_dst s c" "pipe_src s' c = pipe_src s c"
      using pipe_dst_src_fields [of s' s c] by (simp_all add: s' record_event_def set_pipe_def)
    show ?thesis
    proof (rule pipe_step_inv [OF inv, where c = c and pc' = "PipeSend m"
          and es = "[RSetDeadline c (pipe_src s c) now (clock s)]"])
      show "pipe_ok s' c"
        unfolding pipe_ok_def same using ok'
        by (simp add: s' record_event_def set_pipe_def snoc_simps)
    qed (use tr ok' in \<open>simp_all add: s' record_event_def set_pipe_def snoc_simps\<close>)
  next
    case (PipeSend m)
    with step show ?thesis by (simp add: pipe_def)
  next
    case PipeExit
    with step show ?thesis by (simp add: pipe_def)
  qed
qed

lemma main_step_inv:
  assumes inv: "relay_inv s"
      and fields: "pipes s' = (pipes s)(c := pc')" "rtrace s' = rtrace s @ es"
                  "clock s' = clock s" "clientConn s' = clientConn s"
                  "upstreamConn s' = upstreamConn s"
      and tr: "close_after_reports (rtrace s @ es)"
              "report_after_deadlines (clientConn s) (upstreamConn s) (rtrace s @ es)"
              "deadlines_elapsed_after_copy (rtrace s @ es)"
      and new: "pipe_ok s' c" "main_ok s'"
  shows "relay_inv s'"
proof -
  have old: "\<And>c'. pipe_ok s c'"
    using inv by (simp add: relay_inv_all)
  have "pipe_ok s' c'" for c'
  proof (cases "c' = c")
    case True
    with new(1) show ?thesis by simp
  next
    case False
    have "pipes s' c' = pipes s c'" using False by (simp add: fields(1))
    with old [of c'] show ?thesis
      by (rule pipe_ok_frame) (simp_all add: fields)
  qed
  then show ?thesis
    using tr new(2) by (simp add: relay_inv_all fields)
qed

lemma receive_preserves:
  assumes step: "receive c next s = Some s'" and inv: "relay_inv s"
      and main: "main_ok s'"
  shows "relay_inv s'"
proof -
  obtain m where send: "pipes s c = PipeSend m"
    using step by (auto simp: receive_def split: pipe_pc.splits)
  have s': "s' = record_event (RReport c m) (set_pipe c PipeExit (s \<lparr> mainpc := next \<rparr>))"
    using step send by (simp add: receive_def)
  have ok: "pipe_ok s c" and tr: "close_after_reports (rtrace s)"
      "report_after_deadlines (clientConn s) (upstreamConn s) (rtrace s)"
      "deadlines_elapsed_after_copy (rtrace s)"
    using inv by (simp_all add: relay_inv_all)
  have "deadline_set c (pipe_dst s c) (rtrace s)" "deadline_set c (pipe_src s c) (rtrace s)"
    using ok send by (simp_all add: pipe_ok_def)
  then have both: "deadline_set c (clientConn s) (rtrace s)" "deadline_set c (upstreamConn s) (rtrace s)"
    using both_conns by blast+
  show ?thesis
  proof (rule main_step_inv [OF inv, where c = c and pc' = PipeExit and es = "[RReport c m]"])
    show "pipe_ok s' c"
      by (simp add: pipe_ok_def s' record_event_def set_pipe_def snoc_simps)
    show "main_ok s'" by (rule main)
  qed (use tr both in \<open>simp_all add: s' record_event_def set_pipe_def snoc_simps\<close>)
qed

lemma go_preserves:
  assumes s': "s' = record_event (RGo c) (set_pipe c PipeCopy (s \<lparr> mainpc := next \<rparr>))"
      and inv: "relay_inv s" and main: "main_ok s'"
  shows "relay_inv s'"
proof -
  have tr: "close_after_reports (rtrace s)"
      "report_after_deadlines (clientConn s) (upstreamConn s) (rtrace s)"
      "deadlines_elapsed_after_copy (rtrace s)"
    using inv by (simp_all add: relay_inv_all)
  show ?thesis
  proof (rule main_step_inv [OF inv, where c = c and pc' = PipeCopy and es = "[RGo c]"])
    show "pipe_ok s' c"
      by (simp add: pipe_ok_def s' record_event_def set_pipe_def)
    show "main_ok s'" by (rule main)
  qed (use tr in \<open>simp_all add: s' record_event_def set_pipe_def snoc_simps\<close>)
qed

lemma close_preserves:
  assumes s': "s' = record_event (RClose k) (s \<lparr> mainpc := next \<rparr>)"
      and inv: "relay_inv s" and main: "main_ok s'"
      and rep: "reported writeChan (rtrace s)" "reported readChan (rtrace s)"
  shows "relay_inv s'"
proof -
  have ok: "pipe_ok s writeChan" and tr: "close_after_reports (rtrace s)"
      "report_after_deadlines (clientConn s) (upstreamConn s) (rtrace s)"
      "deadlines_elapsed_after_copy (rtrace s)"
    using inv by (simp_all add: relay_inv_all)
  show ?thesis
  proof (rule main_step_inv [OF inv, where c = writeChan and pc' = "pipes s writeChan"
        and es = "[RClose k]"])
    show "pipe_ok s' writeChan"
      using ok by (rule pipe_ok_frame [where es = "[RClose k]"]) (simp_all add: s' record_event_def)
    show "main_ok s'" by (rule main)
  qed (use tr rep in \<open>simp_all add: s' record_event_def snoc_simps\<close>)
qed

lemma relay_main_preserves:
  assumes step: "relay_main s = Some s'" and inv: "relay_inv s"
  shows "relay_inv s'"
proof -
  have m: "main_ok s" using inv by (simp add: relay_inv_all)
  show ?thesis
  proof (cases "mainpc s")
    case MainGoWrite
    with step have s': "s' = record_event (RGo writeChan)
                               (set_pipe writeChan PipeCopy (s \<lparr> mainpc := MainGoRead \<rparr>))"
      by (simp add: relay_main_def)
    show ?thesis
      by (rule go_preserves [OF s' inv]) (simp add: s' main_ok_def record_event_def set_pipe_def)
  next
    case MainGoRead
    with step have s': "s' = record_event (RGo readChan)
                               (set_pipe readChan PipeCopy (s \<lparr> mainpc := MainRecvWrite \<rparr>))"
      by (simp add: relay_main_def)
    show ?thesis
      by (rule go_preserves [OF s' inv]) (simp add: s' main_ok_def record_event_def set_pipe_def)
  next
    case MainRecvWrite
    with step have r: "receive writeChan MainRecvRead s = Some s'"
      by (simp add: relay_main_def)
    have "main_ok s'"
      using r by (auto simp: receive_def main_ok_def record_event_def set_pipe_def snoc_simps
          split: pipe_pc.splits)
    with r inv show ?thesis by (rule receive_preserves)
  next
    case MainRecvRead
    with step have r: "receive readChan MainCloseConn s = Some s'"
      by (simp add: relay_main_def)
    have "reported writeChan (rtrace s)"
      using m MainRecvRead by (simp add: main_ok_def)
    then have "main_ok s'"
      using r by (auto simp: receive_def main_ok_def record_event_def set_pipe_def snoc_simps
          split: pipe_pc.splits)
    with r inv show ?thesis by (rule receive_preserves)
  next
    case MainCloseConn
    with step have s': "s' = record_event (RClose (clientConn s)) (s \<lparr> mainpc := MainCloseDest \<rparr>)"
      by (simp add: relay_main_def)
    have rep: "reported writeChan (rtrace s)" "reported readChan (rtrace s)"
      using m MainCloseConn by (simp_all add: main_ok_def)
    show ?thesis
      by (rule close_preserves [OF s' inv _ rep])
         (use rep in \<open>simp add: s' main_ok_def record_event_def snoc_simps\<close>)
  next
    case MainCloseDest
    with step have s': "s' = record_event (RClose (upstreamConn s)) (s \<lparr> mainpc := MainReturn \<rparr>)"
      by (simp add: relay_main_def)
    have rep: "reported writeChan (rtrace s)" "reported readChan (rtrace s)"
      using m MainCloseDest by (simp_all add: main_ok_def)
    show ?thesis
      by (rule close_preserves [OF s' inv _ rep])
         (use rep in \<open>simp add: s' main_ok_def record_event_def snoc_simps\<close>)
  next
    case MainReturn
    with step show ?thesis by (simp add: relay_main_def)
  qed
qed

lemma relay_step_preserves:
  assumes "relay_step m s = Some s'" and "relay_inv s"
  shows "relay_inv s'"
proof (cases m)
  case Tick
  with assms show ?thesis using tick_preserves by auto
next
  case MoveMain
  with assms show ?thesis using relay_main_preserves by auto
next
  case (MovePipe c n)
  with assms show ?thesis using pipe_preserves by auto
qed

lemma relay_step_conns:
  assumes "relay_step m s = Some s'"
  shows "clientConn s' = clientConn s \<and> upstreamConn s' = upstreamConn s"
  using assms
  by (cases m)
     (auto simp: relay_main_def pipe_def receive_def record_event_def set_pipe_def
        split: main_pc.splits pipe_pc.splits)

lemma relay_run_preserves:
  assumes "relay_run ms s = Some s'" and "relay_inv s"
  shows "relay_inv s' \<and> clientConn s' = clientConn s \<and> upstreamConn s' = upstreamConn s"
  using assms
proof (induction ms arbitrary: s)
  case Nil
  then show ?case by simp
next
  case (Cons m ms)
  from Cons.prems(1) obtain s1 where s1: "relay_step m s = Some s1" "relay_run ms s1 = Some s'"
    by (auto split: option.splits)
  have "relay_inv s1" using s1(1) Cons.prems(2) by (rule relay_step_preserves)
  with Cons.IH [OF s1(2)] relay_step_conns [OF s1(1)] show ?case by simp
qed

lemmas relay_eval =
  relay_init_def relay_main_def pipe_def receive_def record_event_def set_pipe_def

section \<open>Claims about the proxy selector\<close>

text \<open>
  Claim C1, as the specification has it: with an invalid or never set mode string,
  \<open>select()\<close> returns the SOCKS5 dialer when one is configured and none otherwise. On the
  node that \<open>NewLocal\<close> builds when only the HTTP proxy address resolves, no SOCKS5 dialer
  is configured, and yet the selector returns the HTTP dialer, both when the mode was
  never set and after it was set to the invalid string \<^verbatim>\<open>bogus\<close>.
\<close>

theorem invalid_mode_selects_http_dialer:
  "NewLocal example_resolver ''127.0.0.1:2233'' ''unresolvable'' [] [] ''127.0.0.1:8080''
     = Inr example_http_only \<and>
   socks5Dialer example_http_only = None \<and>
   proxySelector (Some example_http_only) 0 = Some (FromURL ''http://127.0.0.1:8080'' Direct) \<and>
   proxySelector (Some (SetSelectMode ''bogus'' example_http_only)) 0
     = Some (FromURL ''http://127.0.0.1:8080'' Direct)"
  by (simp add: example_http_only_NewLocal)
     (simp add: example_http_only_def SetSelectMode_def proxySelector_def modeT_defs)

text \<open>
  Claim C1, amended: a mode string that is none of the five literals leaves the node as
  it is; a node fresh from \<open>NewLocal\<close> has the mode \<open>auto\<close> (the zero value), so with an
  invalid or never set mode string the selector has the \<open>auto\<close> semantics: SOCKS5 if
  configured, else the HTTP proxy, else direct. The selector returns the SOCKS5 dialer,
  configured or not, only for a mode value outside the five constants.
\<close>

theorem invalid_mode_keeps_auto:
  assumes "mode \<notin> {''auto'', ''random'', ''only_http_proxy'', ''only_socks5'', ''direct''}"
      and "NewLocal sys listenAddr socks5Addr socks5Username socks5PassWord httpProxyAddr = Inr l0"
  shows "SetSelectMode mode l = l \<and>
         selectMode l0 = AutoSelectMode \<and>
         proxySelector (Some l0) intn =
           (if socks5Dialer l0 \<noteq> None then socks5Dialer l0
            else if httpProxyDialer l0 \<noteq> None then httpProxyDialer l0
            else directDialer l0) \<and>
         proxySelector (Some (SetSelectMode mode l0)) intn = proxySelector (Some l0) intn \<and>
         (selectMode l \<notin> {AutoSelectMode, RandomSelectMode, OnlySocks5Mode, OnlyHttpProxyMode, DirectMode}
            \<longrightarrow> proxySelector (Some (SetSelectMode mode l)) intn = socks5Dialer l)"
proof -
  have keep: "\<And>k. SetSelectMode mode k = k"
    using assms(1) by (rule SetSelectMode_invalid)
  have auto0: "selectMode l0 = AutoSelectMode"
    using NewLocal_fields [OF assms(2)] by simp
  show ?thesis
    by (simp add: keep auto0 proxySelector_def)
qed

theorem invalid_mode_keeps_auto_witness:
  "SetSelectMode ''bogus'' example_http_only = example_http_only \<and>
   selectMode example_http_only = AutoSelectMode \<and>
   proxySelector (Some (SetSelectMode ''bogus'' example_http_only)) 1
     = Some (FromURL ''http://127.0.0.1:8080'' Direct) \<and>
   proxySelector (Some (SetSelectMode ''bogus'' (example_http_only \<lparr> selectMode := 7 \<rparr>))) 1 = None"
proof -
  have h: "''bogus'' \<notin> {''auto'', ''random'', ''only_http_proxy'', ''only_socks5'', ''direct''}"
    by simp
  show ?thesis
    using invalid_mode_keeps_auto [OF h example_http_only_NewLocal, of example_http_only 1]
          invalid_mode_keeps_auto [OF h example_http_only_NewLocal,
            of "example_http_only \<lparr> selectMode := 7 \<rparr>" 1]
    by (simp add: example_http_only_def modeT_defs SetSelectMode_def proxySelector_def)
qed

text \<open>
  Claim C4: on a node built by \<open>NewLocal\<close> and given any modes by \<open>SetSelectMode\<close>, the
  selector returns only a dialer that \<open>NewLocal\<close> configured; in the modes
  \<open>only_socks5\<close> and \<open>only_http_proxy\<close> it returns none when that dialer is not
  configured (never the direct dialer); in the mode \<open>auto\<close> it returns the SOCKS5 dialer
  if configured, else the HTTP dialer if configured, else the direct dialer, hence never
  none.
\<close>

theorem select_only_configured:
  assumes "NewLocal sys listenAddr socks5Addr socks5Username socks5PassWord httpProxyAddr = Inr l0"
      and "l = fold SetSelectMode modes l0"
  shows "(\<forall>d. proxySelector (Some l) intn = Some d \<longrightarrow>
            Some d \<in> {socks5Dialer l0, httpProxyDialer l0, directDialer l0}) \<and>
         (selectMode l = OnlySocks5Mode \<and> socks5Dialer l0 = None \<longrightarrow>
            proxySelector (Some l) intn = None) \<and>
         (selectMode l = OnlyHttpProxyMode \<and> httpProxyDialer l0 = None \<longrightarrow>
            proxySelector (Some l) intn = None) \<and>
         (selectMode l = AutoSelectMode \<longrightarrow>
            proxySelector (Some l) intn \<noteq> None \<and>
            proxySelector (Some l) intn =
              (if socks5Dialer l0 \<noteq> None then socks5Dialer l0
               else if httpProxyDialer l0 \<noteq> None then httpProxyDialer l0
               else Some Direct))"
proof -
  have d: "directDialer l0 = Some Direct"
    using NewLocal_fields [OF assms(1)] by simp
  have same: "socks5Dialer l = socks5Dialer l0" "httpProxyDialer l = httpProxyDialer l0"
    "directDialer l = directDialer l0"
    using fold_SetSelectMode_dialers [of modes l0] assms(2) by simp_all
  show ?thesis
    unfolding proxySelector_def using d same
    by (auto simp: modeT_defs)
qed

theorem select_only_configured_witness:
  "proxySelector (Some (fold SetSelectMode [''only_socks5''] example_http_only)) 0 = None \<and>
   proxySelector (Some (fold SetSelectMode [''only_socks5'', ''auto''] example_http_only)) 0
     = Some (FromURL ''http://127.0.0.1:8080'' Direct)"
  using select_only_configured [OF example_http_only_NewLocal refl, of "[''only_socks5'']" 0]
        select_only_configured [OF example_http_only_NewLocal refl,
          of "[''only_socks5'', ''auto'']" 0]
  by (simp add: SetSelectMode_def modeT_defs example_http_only_def)

section \<open>Claims about the connection correlator\<close>

text \<open>
  Claim C7: if the inode lookup for the endpoint pair fails, \<open>getPidByAddr\<close> returns the
  empty result at once: the lookup is the only call it makes, so there is no attempt on
  the registry and no sleep, and the registry and the pending arrivals are untouched.
\<close>

theorem lookup_failure_returns_at_once:
  assumes "getInodeByAddrs sys localAddr remoteAddr isTCP6 = Inl err"
  shows "getPidByAddr sys localAddr remoteAddr isTCP6 w =
           (([], []), w \<lparr> trace := trace w @ [EvGetInodeByAddrs localAddr remoteAddr isTCP6] \<rparr>)"
  using assms by (simp add: getPidByAddr_def emit_def)

theorem lookup_failure_returns_at_once_witness:
  "getPidByAddr example_sys ''10.0.0.9:9'' ''127.0.0.1:2233'' False
       (example_world [(''42'', ''1.2.3.4:80'')] [])
     = (([], []), \<lparr> registry = [(''42'', ''1.2.3.4:80'')], arrivals = [],
                    trace = [EvGetInodeByAddrs ''10.0.0.9:9'' ''127.0.0.1:2233'' False] \<rparr>)"
proof -
  have h: "getInodeByAddrs example_sys ''10.0.0.9:9'' ''127.0.0.1:2233'' False = Inl ''no such socket''"
    by (simp add: example_sys_def)
  show ?thesis
    using lookup_failure_returns_at_once [OF h, of "example_world [(''42'', ''1.2.3.4:80'')] []"]
    by (simp add: example_world_def)
qed

text \<open>
  Claim C2, as the specification has it: when no registered PID owns the inode, step 1
  (the inode lookup) and step 2 (the pass over the registry) are both retried, three
  attempts in all. With an empty registry the trace of \<open>getPidByAddr\<close> holds three
  passes over the registry and one lookup only.
\<close>

theorem lookup_is_not_retried:
  "length (filter is_lookup (trace (snd (getPidByAddr example_sys ''127.0.0.1:40000''
       ''127.0.0.1:2233'' False (example_world [] []))))) = 1 \<and>
   length (filter is_range (trace (snd (getPidByAddr example_sys ''127.0.0.1:40000''
       ''127.0.0.1:2233'' False (example_world [] []))))) = 3 \<and>
   fst (getPidByAddr example_sys ''127.0.0.1:40000'' ''127.0.0.1:2233'' False
       (example_world [] [])) = ([], [])"
  by (simp add: getPidByAddr_def getPidByAddr_loop.simps Let_def example_sys_def example_world_def
      emit_def time_Sleep_def)

text \<open>
  Claim C2, amended: when the inode lookup succeeds and no PID that is registered, or
  becomes registered during the sleeps, owns the inode, \<open>getPidByAddr\<close> looks the inode
  up once, then passes over the registry three times, sleeping 20 milliseconds after
  each pass (after the third too), and returns the empty result.
\<close>

theorem no_owner_three_passes:
  assumes "getInodeByAddrs sys localAddr remoteAddr isTCP6 = Inr inode"
      and "\<forall>p \<in> fst ` entries w. \<not> hasIncludeInode sys p inode"
  shows "fst (getPidByAddr sys localAddr remoteAddr isTCP6 w) = ([], []) \<and>
         trace (snd (getPidByAddr sys localAddr remoteAddr isTCP6 w)) =
           trace w @ [EvGetInodeByAddrs localAddr remoteAddr isTCP6,
                      EvRangePidAddr, EvSleep (20 * Millisecond),
                      EvRangePidAddr, EvSleep (20 * Millisecond),
                      EvRangePidAddr, EvSleep (20 * Millisecond)]"
proof -
  let ?w0 = "emit (EvGetInodeByAddrs localAddr remoteAddr isTCP6) w"
  let ?out = "getPidByAddr_loop sys inode 0 ([], []) ?w0"
  have "\<forall>p \<in> fst ` entries ?w0. \<not> hasIncludeInode sys p inode"
    using assms(2) by simp
  from loop_no_owner [OF this, of "([], [])" 0]
  have out: "?out = (([], []), snd ?out)"
    and tr: "trace (snd ?out) = trace ?w0 @ concat (replicate 3 [EvRangePidAddr, EvSleep (20 * Millisecond)])"
    by simp_all
  define w1 where "w1 = snd ?out"
  have out': "?out = (([], []), w1)"
    using out by (simp only: w1_def)
  have "getPidByAddr sys localAddr remoteAddr isTCP6 w = (([], []), w1)"
    by (simp add: getPidByAddr_def Let_def assms(1) out')
  then show ?thesis
    using tr by (simp add: emit_def numeral_3_eq_3 w1_def)
qed

theorem no_owner_three_passes_witness:
  "fst (getPidByAddr example_sys ''127.0.0.1:40000'' ''127.0.0.1:2233'' False
          (example_world [(''7'', ''1.2.3.4:80'')] [[(''8'', ''5.6.7.8:443'')]])) = ([], []) \<and>
   trace (snd (getPidByAddr example_sys ''127.0.0.1:40000'' ''127.0.0.1:2233'' False
          (example_world [(''7'', ''1.2.3.4:80'')] [[(''8'', ''5.6.7.8:443'')]]))) =
     [EvGetInodeByAddrs ''127.0.0.1:40000'' ''127.0.0.1:2233'' False,
      EvRangePidAddr, EvSleep 20000000, EvRangePidAddr, EvSleep 20000000,
      EvRangePidAddr, EvSleep 20000000]"
proof -
  have h1: "getInodeByAddrs example_sys ''127.0.0.1:40000'' ''127.0.0.1:2233'' False = Inr ''77''"
    by (simp add: example_sys_def)
  have h2: "\<forall>p \<in> fst ` entries (example_world [(''7'', ''1.2.3.4:80'')] [[(''8'', ''5.6.7.8:443'')]]).
              \<not> hasIncludeInode example_sys p ''77''"
    by (simp add: example_sys_def example_world_def entries_def)
  show ?thesis
    using no_owner_three_passes [OF h1 h2] by (simp add: example_world_def Millisecond_def)
qed

text \<open>
  Claim C6, as the specification has it: whatever the registry holds, the result of the
  correlator has its PID and its address both non-empty or both empty. With an entry
  whose address is empty, registered for the process 42 that owns the inode, the result
  is that PID with the empty address.
\<close>

theorem correlation_result_half_empty:
  "fst (getPidByAddr example_sys ''127.0.0.1:40000'' ''127.0.0.1:2233'' False
       (example_world [(''42'', [])] [])) = (''42'', [])"
  by (simp add: example_eval)

text \<open>
  Claim C6, amended: provided every entry that is registered, or becomes registered
  during the sleeps, has a non-empty PID and a non-empty address, the result of the
  correlator has its PID and its address both non-empty or both empty.
\<close>

theorem correlation_result_both_or_neither:
  assumes "\<forall>e \<in> entries w. fst e \<noteq> [] \<and> snd e \<noteq> []"
  shows "case fst (getPidByAddr sys localAddr remoteAddr isTCP6 w) of
           (pid, destAddr) \<Rightarrow> (pid = [] \<and> destAddr = []) \<or> (pid \<noteq> [] \<and> destAddr \<noteq> [])"
proof (cases "getInodeByAddrs sys localAddr remoteAddr isTCP6")
  case (Inl err)
  then show ?thesis by (simp add: getPidByAddr_def)
next
  case (Inr inode)
  let ?w0 = "emit (EvGetInodeByAddrs localAddr remoteAddr isTCP6) w"
  obtain p d w1 where out: "getPidByAddr_loop sys inode 0 ([], []) ?w0 = ((p, d), w1)"
    by (metis surj_pair)
  have "loop_post sys inode 0 ([], []) ?w0 ((p, d), w1)"
    using loop_effect [of "([], [])" sys inode 0 ?w0] out by simp
  then have "(p, d) = ([], []) \<or> (p, d) \<in> entries w"
    by (auto simp: loop_post_def)
  then have "(p = [] \<and> d = []) \<or> (p \<noteq> [] \<and> d \<noteq> [])"
    using assms by auto
  then show ?thesis
    by (simp add: getPidByAddr_found [OF Inr out])
qed

theorem correlation_result_both_or_neither_witness:
  "fst (getPidByAddr example_sys ''127.0.0.1:40000'' ''127.0.0.1:2233'' False
          (example_world [(''7'', ''9.9.9.9:53'')] [[(''42'', ''1.2.3.4:80'')]]))
     = (''42'', ''1.2.3.4:80'') \<and>
   fst (getPidByAddr example_sys ''127.0.0.1:40000'' ''127.0.0.1:2233'' False
          (example_world [(''7'', ''9.9.9.9:53'')] [])) = ([], [])"
proof -
  have h1: "\<forall>e \<in> entries (example_world [(''7'', ''9.9.9.9:53'')] [[(''42'', ''1.2.3.4:80'')]]).
              fst e \<noteq> [] \<and> snd e \<noteq> []"
    by (simp add: entries_def example_world_def)
  have h2: "\<forall>e \<in> entries (example_world [(''7'', ''9.9.9.9:53'')] []). fst e \<noteq> [] \<and> snd e \<noteq> []"
    by (simp add: entries_def example_world_def)
  show ?thesis
    using correlation_result_both_or_neither [OF h1, of example_sys "''127.0.0.1:40000''" "''127.0.0.1:2233''" False]
          correlation_result_both_or_neither [OF h2, of example_sys "''127.0.0.1:40000''" "''127.0.0.1:2233''" False]
    by (simp add: example_eval)
qed

text \<open>
  Claim C9: a match is found when the PID returned is not empty (the test the code
  itself makes). Then, for the number \<open>k < 3\<close> of sleeps made, the returned pair is an
  entry of the registry as the stores of other goroutines during these sleeps left it,
  and the registry afterwards is that registry without the entries of the returned PID,
  every other entry kept in place; the removal is the one \<open>DeletePidAddr\<close> call of the
  run and its last call. When no match is found, the correlator makes no
  \<open>DeletePidAddr\<close> call and the registry is what the stores of other goroutines made
  of it.
\<close>

theorem match_removes_only_matched_entry:
  assumes "getPidByAddr sys localAddr remoteAddr isTCP6 w = ((pid, destAddr), w')"
  shows "(pid \<noteq> [] \<longrightarrow>
            (\<exists>k < 3. (pid, destAddr) \<in> set (stores (take k (arrivals w)) (registry w)) \<and>
                registry w' =
                  filter (\<lambda>e. fst e \<noteq> pid) (stores (take k (arrivals w)) (registry w))) \<and>
            filter is_delete (trace w') = filter is_delete (trace w) @ [EvDeletePidAddr pid] \<and>
            last (trace w') = EvDeletePidAddr pid) \<and>
         (pid = [] \<longrightarrow>
            (\<exists>k \<le> 3. registry w' = stores (take k (arrivals w)) (registry w)) \<and>
            filter is_delete (trace w') = filter is_delete (trace w))"
proof (cases "getInodeByAddrs sys localAddr remoteAddr isTCP6")
  case (Inl err)
  have "pid = []" "w' = emit (EvGetInodeByAddrs localAddr remoteAddr isTCP6) w"
    using assms Inl by (simp_all add: getPidByAddr_def)
  then show ?thesis
    by (auto simp: emit_def intro: exI [of _ 0])
next
  case (Inr inode)
  let ?w0 = "emit (EvGetInodeByAddrs localAddr remoteAddr isTCP6) w"
  obtain p d w1 where out: "getPidByAddr_loop sys inode 0 ([], []) ?w0 = ((p, d), w1)"
    by (metis surj_pair)
  have res: "pid = p" "destAddr = d"
    and w': "w' = (if p \<noteq> [] then emit (EvDeletePidAddr p) (w1 \<lparr> registry := DeletePidAddr p (registry w1) \<rparr>)
                   else w1)"
    using assms getPidByAddr_found [OF Inr out] by auto
  have "loop_post sys inode 0 ([], []) ?w0 ((p, d), w1)"
    using loop_effect [of "([], [])" sys inode 0 ?w0] out by simp
  then obtain k where k: "loop_sleeps k 0 ?w0 ((p, d), w1)"
    by (auto simp: loop_post_def)
  then have k3: "k \<le> 3"
    and reg: "registry w1 = stores (take k (arrivals w)) (registry w)"
    and tr: "trace w1 = trace w @ [EvGetInodeByAddrs localAddr remoteAddr isTCP6]
               @ concat (replicate k [EvRangePidAddr, EvSleep (20 * Millisecond)])
               @ (if p \<noteq> [] then [EvRangePidAddr] else [])"
    and found: "p \<noteq> [] \<longrightarrow> k < 3 \<and> (p, d) \<in> set (registry w1)"
    by (auto simp: loop_sleeps_def emit_def)
  show ?thesis
  proof (cases "p = []")
    case True
    then have "w' = w1" using w' by simp
    with True reg tr k3 show ?thesis
      by (auto simp: res filter_is_delete_passes)
  next
    case False
    then have w'': "w' = emit (EvDeletePidAddr p) (w1 \<lparr> registry := DeletePidAddr p (registry w1) \<rparr>)"
      using w' by simp
    have del: "DeletePidAddr p (registry w1) = filter (\<lambda>e. fst e \<noteq> p) (registry w1)"
      by (simp add: DeletePidAddr_def AList.delete_eq case_prod_unfold) (metis)
    have "k < 3" "(p, d) \<in> set (stores (take k (arrivals w)) (registry w))"
      using found False reg by simp_all
    moreover have "registry w' = filter (\<lambda>e. fst e \<noteq> p) (stores (take k (arrivals w)) (registry w))"
      using del reg by (simp add: w'' emit_def)
    moreover have "filter is_delete (trace w') = filter is_delete (trace w) @ [EvDeletePidAddr p]"
      using False tr by (simp add: w'' emit_def filter_is_delete_passes)
    moreover have "last (trace w') = EvDeletePidAddr p"
      by (simp add: w'' emit_def)
    ultimately show ?thesis
      using False unfolding res by blast
  qed
qed

theorem match_removes_only_matched_entry_witness:
  "registry (snd (getPidByAddr example_sys ''127.0.0.1:40000'' ''127.0.0.1:2233'' False
      (example_world [(''7'', ''9.9.9.9:53''), (''42'', ''1.2.3.4:80''), (''8'', ''8.8.8.8:53'')] [])))
     = [(''7'', ''9.9.9.9:53''), (''8'', ''8.8.8.8:53'')] \<and>
   filter is_delete (trace (snd (getPidByAddr example_sys ''127.0.0.1:40000'' ''127.0.0.1:2233'' False
      (example_world [(''7'', ''9.9.9.9:53''), (''42'', ''1.2.3.4:80''), (''8'', ''8.8.8.8:53'')] []))))
     = [EvDeletePidAddr ''42''] \<and>
   registry (snd (getPidByAddr example_sys ''127.0.0.1:40000'' ''127.0.0.1:2233'' False
      (example_world [(''7'', ''9.9.9.9:53''), (''8'', ''8.8.8.8:53'')] [])))
     = [(''7'', ''9.9.9.9:53''), (''8'', ''8.8.8.8:53'')] \<and>
   filter is_delete (trace (snd (getPidByAddr example_sys ''127.0.0.1:40000'' ''127.0.0.1:2233'' False
      (example_world [(''7'', ''9.9.9.9:53''), (''8'', ''8.8.8.8:53'')] [])))) = []"
proof -
  have h1: "getPidByAddr example_sys ''127.0.0.1:40000'' ''127.0.0.1:2233'' False
      (example_world [(''7'', ''9.9.9.9:53''), (''42'', ''1.2.3.4:80''), (''8'', ''8.8.8.8:53'')] [])
     = ((''42'', ''1.2.3.4:80''),
        \<lparr> registry = [(''7'', ''9.9.9.9:53''), (''8'', ''8.8.8.8:53'')], arrivals = [],
          trace = [EvGetInodeByAddrs ''127.0.0.1:40000'' ''127.0.0.1:2233'' False, EvRangePidAddr,
                   EvDeletePidAddr ''42''] \<rparr>)"
    by (simp add: example_eval)
  have h2: "getPidByAddr example_sys ''127.0.0.1:40000'' ''127.0.0.1:2233'' False
      (example_world [(''7'', ''9.9.9.9:53''), (''8'', ''8.8.8.8:53'')] [])
     = (([], []),
        \<lparr> registry = [(''7'', ''9.9.9.9:53''), (''8'', ''8.8.8.8:53'')], arrivals = [],
          trace = [EvGetInodeByAddrs ''127.0.0.1:40000'' ''127.0.0.1:2233'' False,
                   EvRangePidAddr, EvSleep (20 * Millisecond), EvRangePidAddr,
                   EvSleep (20 * Millisecond), EvRangePidAddr, EvSleep (20 * Millisecond)] \<rparr>)"
    by (simp add: example_eval)
  show ?thesis
    using match_removes_only_matched_entry [OF h1] match_removes_only_matched_entry [OF h2]
    by (simp add: h1 h2)
qed

section \<open>Claims about \<open>HandleConn\<close>\<close>

text \<open>
  Claim C10: in the mode \<open>random\<close>, when neither the SOCKS5 dialer nor the HTTP dialer
  is configured, the selector returns nil, whatever the direct dialer is; \<open>HandleConn\<close>
  then dials nothing, closes the accepted connection after the correlation and returns
  an error: \<^verbatim>\<open>bad dialer\<close> when the correlation succeeded, the error of the failed
  correlation otherwise.
\<close>

theorem random_without_proxy_selects_none:
  assumes "selectMode l = RandomSelectMode"
      and "socks5Dialer l = None"
      and "httpProxyDialer l = None"
  shows "proxySelector (Some l) intn = None \<and>
         fst (HandleConn sys l intn conn w) =
           Some (case fst (getPidByAddr sys (RemoteAddr conn) (LocalAddr conn)
                             (CHR ''['' \<in> set (LocalAddr conn)) w) of
                   (pid, destAddr) \<Rightarrow>
                      if pid = [] \<or> destAddr = []
                      then ''can't find the pid and destAddr for '' @ RemoteAddr conn
                      else ''bad dialer'') \<and>
         snd (HandleConn sys l intn conn w) =
           emit (EvClose conn)
             (snd (getPidByAddr sys (RemoteAddr conn) (LocalAddr conn)
                     (CHR ''['' \<in> set (LocalAddr conn)) w))"
proof -
  have sel: "proxySelector (Some l) intn = None"
    using assms by (simp add: proxySelector_def modeT_defs)
  obtain pid destAddr w1 where
    g: "getPidByAddr sys (RemoteAddr conn) (LocalAddr conn) (CHR ''['' \<in> set (LocalAddr conn)) w
          = ((pid, destAddr), w1)"
    by (metis surj_pair)
  show ?thesis
    by (simp add: sel HandleConn_def Let_def g)
qed

theorem random_without_proxy_selects_none_witness:
  "directDialer (SetSelectMode ''random'' example_no_proxy) = Some Direct \<and>
   proxySelector (Some (SetSelectMode ''random'' example_no_proxy)) 0 = None \<and>
   HandleConn example_sys (SetSelectMode ''random'' example_no_proxy) 0 example_conn
       (example_world [(''42'', ''1.2.3.4:80'')] [])
     = (Some ''bad dialer'',
        \<lparr> registry = [], arrivals = [],
          trace = [EvGetInodeByAddrs ''127.0.0.1:40000'' ''127.0.0.1:2233'' False, EvRangePidAddr,
                   EvDeletePidAddr ''42'', EvClose example_conn] \<rparr>)"
proof -
  have h: "selectMode (SetSelectMode ''random'' example_no_proxy) = RandomSelectMode"
          "socks5Dialer (SetSelectMode ''random'' example_no_proxy) = None"
          "httpProxyDialer (SetSelectMode ''random'' example_no_proxy) = None"
    by (simp_all add: SetSelectMode_def example_no_proxy_def)
  have g: "getPidByAddr example_sys ''127.0.0.1:40000'' ''127.0.0.1:2233'' False
             (example_world [(''42'', ''1.2.3.4:80'')] [])
           = ((''42'', ''1.2.3.4:80''),
              \<lparr> registry = [], arrivals = [],
                trace = [EvGetInodeByAddrs ''127.0.0.1:40000'' ''127.0.0.1:2233'' False,
                         EvRangePidAddr, EvDeletePidAddr ''42''] \<rparr>)"
    by (simp add: example_eval)
  have d: "directDialer (SetSelectMode ''random'' example_no_proxy) = Some Direct"
    by (simp add: SetSelectMode_def example_no_proxy_def)
  show ?thesis
    using random_without_proxy_selects_none [OF h, of 0 example_sys example_conn "example_world [(''42'', ''1.2.3.4:80'')] []"] d
    by (simp add: example_conn_def g emit_def prod_eq_iff)
qed

text \<open>
  Claim C5: let the correlation succeed, the selector return a dialer, and the dial
  through it to the destination address fail. In the mode \<open>auto\<close>, \<open>HandleConn\<close> then
  makes exactly one plain \<^verbatim>\<open>net.Dial\<close> to the same address: if that fails too the
  connection is closed and the error returned, otherwise the relay runs. In every other
  mode no further dial is made: the connection is closed at once and the dialer's error
  returned.
\<close>

theorem dial_failure_direct_fallback_only_auto:
  assumes "getPidByAddr sys (RemoteAddr conn) (LocalAddr conn) (CHR ''['' \<in> set (LocalAddr conn)) w
             = ((pid, destAddr), w1)"
      and "pid \<noteq> []" and "destAddr \<noteq> []"
      and "proxySelector (Some l) intn = Some dialer"
      and "Dial sys dialer ''tcp'' destAddr = Inl err"
  shows "(selectMode l = AutoSelectMode \<longrightarrow>
            HandleConn sys l intn conn w =
              (case net_Dial sys ''tcp'' destAddr of
                 Inl err' \<Rightarrow>
                   (Some err',
                    w1 \<lparr> trace := trace w1 @ [EvDial dialer ''tcp'' destAddr,
                                               EvNetDial ''tcp'' destAddr, EvClose conn] \<rparr>)
               | Inr destConn \<Rightarrow>
                   (None,
                    w1 \<lparr> trace := trace w1 @ [EvDial dialer ''tcp'' destAddr,
                                               EvNetDial ''tcp'' destAddr,
                                               EvGoPipe conn destConn writeChan,
                                               EvGoPipe destConn conn readChan,
                                               EvRecv writeChan, EvRecv readChan,
                                               EvClose conn, EvClose destConn] \<rparr>))) \<and>
         (selectMode l \<noteq> AutoSelectMode \<longrightarrow>
            HandleConn sys l intn conn w =
              (Some err, w1 \<lparr> trace := trace w1 @ [EvDial dialer ''tcp'' destAddr, EvClose conn] \<rparr>))"
  using assms
  by (simp add: HandleConn_def Let_def emit_def split: sum.splits)

theorem dial_failure_direct_fallback_only_auto_witness:
  "HandleConn example_sys example_http_only 0 example_conn
       (example_world [(''42'', ''1.2.3.4:80'')] [])
     = (None,
        \<lparr> registry = [], arrivals = [],
          trace = [EvGetInodeByAddrs ''127.0.0.1:40000'' ''127.0.0.1:2233'' False, EvRangePidAddr,
                   EvDeletePidAddr ''42'',
                   EvDial (FromURL ''http://127.0.0.1:8080'' Direct) ''tcp'' ''1.2.3.4:80'',
                   EvNetDial ''tcp'' ''1.2.3.4:80'',
                   EvGoPipe example_conn
                     \<lparr> LocalAddr = ''10.0.0.1:5555'', RemoteAddr = ''1.2.3.4:80'' \<rparr> writeChan,
                   EvGoPipe \<lparr> LocalAddr = ''10.0.0.1:5555'', RemoteAddr = ''1.2.3.4:80'' \<rparr>
                     example_conn readChan,
                   EvRecv writeChan, EvRecv readChan, EvClose example_conn,
                   EvClose \<lparr> LocalAddr = ''10.0.0.1:5555'', RemoteAddr = ''1.2.3.4:80'' \<rparr>] \<rparr>) \<and>
   HandleConn example_sys (SetSelectMode ''only_http_proxy'' example_http_only) 0 example_conn
       (example_world [(''42'', ''1.2.3.4:80'')] [])
     = (Some ''connection refused'',
        \<lparr> registry = [], arrivals = [],
          trace = [EvGetInodeByAddrs ''127.0.0.1:40000'' ''127.0.0.1:2233'' False, EvRangePidAddr,
                   EvDeletePidAddr ''42'',
                   EvDial (FromURL ''http://127.0.0.1:8080'' Direct) ''tcp'' ''1.2.3.4:80'',
                   EvClose example_conn] \<rparr>)"
proof -
  have g: "getPidByAddr example_sys (RemoteAddr example_conn) (LocalAddr example_conn)
             (CHR ''['' \<in> set (LocalAddr example_conn))
             (example_world [(''42'', ''1.2.3.4:80'')] [])
           = ((''42'', ''1.2.3.4:80''),
              \<lparr> registry = [], arrivals = [],
                trace = [EvGetInodeByAddrs ''127.0.0.1:40000'' ''127.0.0.1:2233'' False,
                         EvRangePidAddr, EvDeletePidAddr ''42''] \<rparr>)"
    by (simp add: example_eval example_conn_def)
  have ne: "''42'' \<noteq> []" "''1.2.3.4:80'' \<noteq> []" by simp_all
  have s1: "proxySelector (Some example_http_only) 0 = Some (FromURL ''http://127.0.0.1:8080'' Direct)"
    by (simp add: proxySelector_def example_http_only_def modeT_defs)
  have s2: "proxySelector (Some (SetSelectMode ''only_http_proxy'' example_http_only)) 0
              = Some (FromURL ''http://127.0.0.1:8080'' Direct)"
    by (simp add: proxySelector_def SetSelectMode_def example_http_only_def modeT_defs)
  have d: "Dial example_sys (FromURL ''http://127.0.0.1:8080'' Direct) ''tcp'' ''1.2.3.4:80''
             = Inl ''connection refused''"
    by (simp add: example_sys_def)
  show ?thesis
    using dial_failure_direct_fallback_only_auto [OF g ne s1 d] dial_failure_direct_fallback_only_auto [OF g ne s2 d]
    by (simp add: example_sys_def example_http_only_def SetSelectMode_def modeT_defs)
qed

section \<open>Claims about the FIFO record decoder\<close>

text \<open>
  Claim C3: for a line whose split at the colons has more than three fields, the
  decoder takes the last field as the PID, the field before it as the port, and as the
  IP the prefix of the line of length \<open>len(line) - 2 - len(pid) - len(port)\<close>; this
  length is within the line (the slice does not panic), the line is exactly that prefix,
  a colon, the port, a colon and the PID, and the address stored is \<open>[ip]:port\<close>. In
  particular, for an IP string that contains a colon, and a port and a PID that (as
  decimal numbers do) contain none, decoding \<open>ip:port:pid\<close> gives back that IP, port
  and PID; the line \<^verbatim>\<open>::1:8080:4321\<close> gives the address \<^verbatim>\<open>[::1]:8080\<close> and the PID 4321.
\<close>

theorem ipv6_record_decoding:
  "(3 < length (Split line CHR '':'') \<longrightarrow>
      (let s = Split line CHR '':'';
           pid = s ! (length s - 1);
           destPort = s ! (length s - 2);
           n = int (length line) - 2 - int (length pid) - int (length destPort)
       in 0 \<le> n \<and> n \<le> int (length line) \<and>
          line = take (nat n) line @ '':'' @ destPort @ '':'' @ pid \<and>
          UpdateProcessAddrInfo_line line =
            StorePidAddrCall pid (''['' @ take (nat n) line @ '']:'' @ destPort))) \<and>
   (CHR '':'' \<in> set ip \<and> CHR '':'' \<notin> set port \<and> CHR '':'' \<notin> set pid' \<longrightarrow>
      UpdateProcessAddrInfo_line (ip @ '':'' @ port @ '':'' @ pid') =
        StorePidAddrCall pid' (''['' @ ip @ '']:'' @ port)) \<and>
   UpdateProcessAddrInfo_line ''::1:8080:4321'' = StorePidAddrCall ''4321'' ''[::1]:8080''"
proof (intro conjI impI)
  assume big: "3 < length (Split line CHR '':'')"
  let ?s = "Split line CHR '':''"
  have "3 \<le> length ?s" using big by simp
  then obtain a where a: "line = a @ CHR '':'' # ?s ! (length ?s - 2) @ CHR '':'' # ?s ! (length ?s - 1)"
    using Split_last_two by blast
  note sh = decode_ipv6_shape [OF big a]
  have tk: "take (length a) line = a"
    by (subst a) simp
  have le: "length a \<le> length line"
    by (subst a) simp
  show "let s = Split line CHR '':'';
           pid = s ! (length s - 1);
           destPort = s ! (length s - 2);
           n = int (length line) - 2 - int (length pid) - int (length destPort)
       in 0 \<le> n \<and> n \<le> int (length line) \<and>
          line = take (nat n) line @ '':'' @ destPort @ '':'' @ pid \<and>
          UpdateProcessAddrInfo_line line =
            StorePidAddrCall pid (''['' @ take (nat n) line @ '']:'' @ destPort)"
    unfolding Let_def conjunct2 [OF sh]
    using sh a le by (simp add: tk)
next
  assume h: "CHR '':'' \<in> set ip \<and> CHR '':'' \<notin> set port \<and> CHR '':'' \<notin> set pid'"
  let ?line = "ip @ '':'' @ port @ '':'' @ pid'"
  have sp: "Split ?line CHR '':'' = Split ip CHR '':'' @ [port, pid']"
    using h by (simp add: Split_append_sep Split_no_sep)
  have two: "2 \<le> length (Split ip CHR '':'')"
    using h by (intro Split_with_sep) simp
  have big: "3 < length (Split ?line CHR '':'')"
    unfolding sp using two by simp
  have p1: "Split ?line CHR '':'' ! (length (Split ?line CHR '':'') - 1) = pid'"
    unfolding sp by (simp add: nth_append)
  have p2: "Split ?line CHR '':'' ! (length (Split ?line CHR '':'') - 2) = port"
    unfolding sp by (simp add: nth_append)
  have shape: "?line = ip @ CHR '':'' # Split ?line CHR '':'' ! (length (Split ?line CHR '':'') - 2)
                     @ CHR '':'' # Split ?line CHR '':'' ! (length (Split ?line CHR '':'') - 1)"
    unfolding p1 p2 by simp
  show "UpdateProcessAddrInfo_line ?line = StorePidAddrCall pid' (''['' @ ip @ '']:'' @ port)"
    using decode_ipv6_shape [OF big shape] unfolding p1 p2 by simp
next
  show "UpdateProcessAddrInfo_line ''::1:8080:4321'' = StorePidAddrCall ''4321'' ''[::1]:8080''"
    by (simp add: UpdateProcessAddrInfo_line_def)
qed

theorem ipv6_record_decoding_witness:
  "UpdateProcessAddrInfo_line ''2001:db8::1:443:77'' = StorePidAddrCall ''77'' ''[2001:db8::1]:443'' \<and>
   UpdateProcessAddrInfo_line ''fe80::a:b:c:53:65535'' = StorePidAddrCall ''65535'' ''[fe80::a:b:c]:53''"
proof -
  have h1: "3 < length (Split ''2001:db8::1:443:77'' CHR '':'')" by simp
  have h2: "CHR '':'' \<in> set ''fe80::a:b:c'' \<and> CHR '':'' \<notin> set ''53'' \<and> CHR '':'' \<notin> set ''65535''"
    by simp
  show ?thesis
    using ipv6_record_decoding [of "''2001:db8::1:443:77''" "''fe80::a:b:c''" "''53''" "''65535''"] h1 h2
    by (simp add: Let_def)
qed

section \<open>Claims about the relay\<close>

text \<open>
  Claim C8: in every run of a relay session, under every schedule of the three
  goroutines, each \<open>pipe\<close> goroutine sets a deadline only after its \<^verbatim>\<open>io.Copy\<close> has
  returned, the deadline it sets is the time read before the call and so is not later
  than the clock at the call; it reports on its channel only after it has set this
  deadline on both connections of the session; and \<open>HandleConn\<close> closes a connection
  only after both goroutines have reported.
\<close>

theorem relay_closes_after_both_reports:
  assumes "relay_run ms (relay_init conn destConn t0) = Some s"
  shows "close_after_reports (rtrace s) \<and>
         report_after_deadlines conn destConn (rtrace s) \<and>
         deadlines_elapsed_after_copy (rtrace s)"
  using relay_run_preserves [OF assms relay_inv_init]
  by (auto simp: relay_inv_def relay_init_def)

theorem relay_closes_after_both_reports_witness:
  "map_option rtrace (relay_run example_schedule (relay_init example_conn example_upstream 100))
     = Some example_relay_trace \<and>
   map_option mainpc (relay_run example_schedule (relay_init example_conn example_upstream 100))
     = Some MainReturn \<and>
   close_after_reports example_relay_trace \<and>
   report_after_deadlines example_conn example_upstream example_relay_trace \<and>
   deadlines_elapsed_after_copy example_relay_trace"
proof -
  have "\<exists>s. relay_run example_schedule (relay_init example_conn example_upstream 100) = Some s \<and>
            rtrace s = example_relay_trace \<and> mainpc s = MainReturn"
    by (simp add: example_schedule_def example_relay_trace_def relay_eval)
  then obtain s where run: "relay_run example_schedule (relay_init example_conn example_upstream 100) = Some s"
    and tr: "rtrace s = example_relay_trace" and pc: "mainpc s = MainReturn"
    by blast
  show ?thesis
    using relay_closes_after_both_reports [OF run] by (simp add: run tr pc)
qed

end
